theory Spec2Isabelle
  imports Main "HOL-Library.Sublist" "HOL-Library.Char_ord" "HOL-Library.List_Lexorder"
begin

section \<open>Python strings\<close>

text \<open>
  A Python \<open>str\<close> is modelled as a \<open>string\<close> whose characters are the code points
  below 256. Among these \<open>str.lower()\<close> maps \<open>A\<close>..\<open>Z\<close> (65..90) and the capital
  letters 192..222 other than the multiplication sign 215 to the letter 32 places further,
  and leaves every other character alone. Code points from 256 on are outside the model.
\<close>

definition lower_char :: "char \<Rightarrow> char" where
  "lower_char c =
     (let n = (of_char c :: nat)
      in if (65 \<le> n \<and> n \<le> 90) \<or> (192 \<le> n \<and> n \<le> 222 \<and> n \<noteq> 215) then char_of (n + 32)
         else c)"

definition lower :: "string \<Rightarrow> string" where
  "lower s = map lower_char s"

text \<open>
  The whitespace characters below 256 (\<open>str.isspace\<close>): tab, line feed, vertical tab,
  form feed, carriage return (9..13), the four separators 28..31, the space (32), the
  next-line character (133, \<open>0x85\<close>) and the no-break space (160, \<open>0xA0\<close>).
\<close>

definition is_space :: "char \<Rightarrow> bool" where
  "is_space c =
     (let n = (of_char c :: nat)
      in (9 \<le> n \<and> n \<le> 13) \<or> (28 \<le> n \<and> n \<le> 32) \<or> n = 133 \<or> n = 160)"

text \<open>\<open>pat in s\<close> for two strings: \<open>pat\<close> is a contiguous part of \<open>s\<close>.\<close>

fun contains :: "string \<Rightarrow> string \<Rightarrow> bool" where
  "contains pat [] = (pat = [])"
| "contains pat (c # cs) = (prefix pat (c # cs) \<or> contains pat cs)"

text \<open>\<open>sep.join(parts)\<close>.\<close>

fun join :: "string \<Rightarrow> string list \<Rightarrow> string" where
  "join sep [] = []"
| "join sep [p] = p"
| "join sep (p # q # ps) = p @ sep @ join sep (q # ps)"

text \<open>The decimal text of an integer, as an f-string prints it.\<close>

fun str_nat :: "nat \<Rightarrow> string" where
  "str_nat n =
     (if n < 10 then [char_of (48 + n)] else str_nat (n div 10) @ [char_of (48 + n mod 10)])"

declare str_nat.simps [simp del]

definition str_int :: "int \<Rightarrow> string" where
  "str_int i = (if i < 0 then CHR ''-'' # str_nat (nat (- i)) else str_nat (nat i))"

text \<open>
  Python's truth value of an optional string (\<open>if color\<close>, \<open>while parent\<close>): \<open>None\<close> and
  the empty string are false.
\<close>

fun truthy :: "string option \<Rightarrow> bool" where
  "truthy None = False"
| "truthy (Some s) = (s \<noteq> [])"


section \<open>The safety gate \<open>sanitize_svg\<close>\<close>

text \<open>
  \<^verbatim>\<open>
  def sanitize_svg(body):
      body_lower = body.lower()
      if "<script" in body_lower: return False
      if "onload=" in body_lower: return False
      if re.search(r'href=["\']http', body_lower): return False
      return True
  \<close>
  The regular expression is the text \<open>href=\<close>, one double or single quote, and \<open>http\<close>.
\<close>

definition href_dq :: string where
  \<open>href_dq = ''href="http''\<close>

definition href_sq :: string where
  \<open>href_sq = ''href='' @ [CHR 0x27] @ ''http''\<close>

definition re_search_href :: "string \<Rightarrow> bool" where
  "re_search_href s = (contains href_dq s \<or> contains href_sq s)"

definition sanitize_svg :: "string \<Rightarrow> bool" where
  "sanitize_svg body =
     (let body_lower = lower body in
      if contains ''<script'' body_lower then False
      else if contains ''onload='' body_lower then False
      else if re_search_href body_lower then False
      else True)"

text \<open>
  Texts in a body, stated on the body itself and without \<open>lower\<close>: a pattern of lower
  case letters and signs occurs in the body when at some position every character of the
  pattern is met by itself or, for a letter \<open>a\<close>..\<open>z\<close>, by its capital.
  \<open>ci_prefix\<close> compares character by character, \<open>occurs_ci\<close> tries every position.
\<close>

definition letter_match :: "char \<Rightarrow> char \<Rightarrow> bool" where
  "letter_match p c \<longleftrightarrow>
     c = p \<or>
     (97 \<le> (of_char p :: nat) \<and> (of_char p :: nat) \<le> 122 \<and> (of_char c :: nat) + 32 = of_char p)"

fun ci_prefix :: "string \<Rightarrow> string \<Rightarrow> bool" where
  "ci_prefix [] s = True"
| "ci_prefix (p # ps) [] = False"
| "ci_prefix (p # ps) (c # cs) = (letter_match p c \<and> ci_prefix ps cs)"






text \<open>
  The specification's words, read as XML: an attribute is its name, an equals sign that
  may have whitespace on either side, and a quoted value. \<open>has_attribute name start\<close>
  says that the body holds the attribute \<open>name\<close> with a value that begins with
  \<open>start\<close>, in any letter case: an \<open>href\<close> attribute pointing at an \<open>http\<close> resource is
  \<open>has_attribute ''href'' ''http''\<close>, an \<open>onload\<close> attribute is
  \<open>has_attribute ''onload'' []\<close>.
\<close>

definition attribute_at :: "string \<Rightarrow> string \<Rightarrow> string \<Rightarrow> bool" where
  "attribute_at name start s \<longleftrightarrow>
     ci_prefix name s \<and>
     (case dropWhile is_space (drop (length name) s) of
        [] \<Rightarrow> False
      | e # r \<Rightarrow>
          e = CHR ''='' \<and>
          (case dropWhile is_space r of
             [] \<Rightarrow> False
           | q # v \<Rightarrow> (q = CHR 0x22 \<or> q = CHR 0x27) \<and> ci_prefix start v))"

fun has_attribute :: "string \<Rightarrow> string \<Rightarrow> string \<Rightarrow> bool" where
  "has_attribute name start [] = False"
| "has_attribute name start (c # cs) =
     (attribute_at name start (c # cs) \<or> has_attribute name start cs)"


section \<open>Icon data\<close>

text \<open>
  One entry of a collection's \<open>icons\<close> dictionary, by the keys the program reads; a key
  that is absent is \<open>None\<close>. \<open>other_keys\<close> says whether the dictionary has any further
  key, which decides its truth value. The values of an alias dictionary are not read by
  the program and stay polymorphic. A dictionary keeps insertion order: it is an
  association list whose keys are distinct. The values have the types the program expects
  of them: \<open>parent\<close> and \<open>body\<close> are strings, \<open>width\<close> and \<open>height\<close> integers,
  \<open>aliases\<close> a dictionary.
\<close>

type_synonym 'v dict = "(string \<times> 'v) list"

record 'v icon_entry =
  parent :: "string option"
  aliases :: "'v dict option"
  body :: "string option"
  width :: "int option"
  height :: "int option"
  other_keys :: bool

definition empty_entry :: "'v icon_entry" where
  "empty_entry = \<lparr>parent = None, aliases = None, body = None, width = None, height = None,
     other_keys = False\<rparr>"

text \<open>\<open>not icon\<close>: the dictionary has no key at all.\<close>

definition is_empty :: "'v icon_entry \<Rightarrow> bool" where
  "is_empty e \<longleftrightarrow> parent e = None \<and> aliases e = None \<and> body e = None \<and> width e = None \<and>
     height e = None \<and> \<not> other_keys e"

type_synonym 'v icons = "(string \<times> 'v icon_entry) list"

text \<open>\<open>icons.get(name, {})\<close>.\<close>

definition icons_get :: "'v icons \<Rightarrow> string \<Rightarrow> 'v icon_entry" where
  "icons_get icons name = (case map_of icons name of None \<Rightarrow> empty_entry | Some e \<Rightarrow> e)"

text \<open>
  The document of one collection: \<open>data.get("icons", {})\<close> and the two license fields
  the program prints.
\<close>

record 'v collection_doc =
  doc_icons :: "'v icons option"
  license_title :: "string option"
  license_url :: "string option"

definition get_icons :: "'v collection_doc \<Rightarrow> 'v icons" where
  "get_icons data = (case doc_icons data of None \<Rightarrow> [] | Some icons \<Rightarrow> icons)"

definition get_license_title :: "'v collection_doc \<Rightarrow> string" where
  "get_license_title data = (case license_title data of None \<Rightarrow> ''Unknown'' | Some t \<Rightarrow> t)"


section \<open>Assembling the SVG in \<open>get_svg\<close>\<close>

text \<open>
  \<^verbatim>\<open>
  svg_parts = ['<svg xmlns="http://www.w3.org/2000/svg"',
               f'viewBox="0 0 {width} {height}"',
               f'width="{size}" height="{size}">']
  if color and color != "currentColor":
      svg_parts.append(f'<g fill="{color}">'); svg_parts.append(body); svg_parts.append('</g>')
  else:
      svg_parts.append(body)
  svg_parts.append('</svg>')
  svg = "\n".join(svg_parts)
  \<close>
\<close>

definition svg_open :: string where
  \<open>svg_open = ''<svg xmlns="http://www.w3.org/2000/svg"''\<close>

definition view_box :: "int \<Rightarrow> int \<Rightarrow> string" where
  \<open>view_box w h = ''viewBox="0 0 '' @ str_int w @ '' '' @ str_int h @ ''"''\<close>

definition size_attrs :: "int \<Rightarrow> string" where
  \<open>size_attrs s = ''width="'' @ str_int s @ ''" height="'' @ str_int s @ ''">''\<close>

definition g_open :: "string \<Rightarrow> string" where
  \<open>g_open c = ''<g fill="'' @ c @ ''">''\<close>

definition build_svg :: "string \<Rightarrow> int \<Rightarrow> int \<Rightarrow> int \<Rightarrow> string option \<Rightarrow> string" where
  "build_svg b w h s color =
     (let svg_parts = [svg_open, view_box w h, size_attrs s];
          svg_parts = (if truthy color \<and> color \<noteq> Some ''currentColor''
                       then svg_parts @ [g_open (the color), b, ''</g>'']
                       else svg_parts @ [b]);
          svg_parts = svg_parts @ [''</svg>'']
      in join ''\<newline>'' svg_parts)"

text \<open>
  What \<open>get_svg\<close> prints once the icon is resolved (from \<open>if not icon\<close> on): the list
  of the arguments of its \<open>print\<close> calls.
\<close>

definition msg_not_found :: "string \<Rightarrow> string \<Rightarrow> string" where
  "msg_not_found pfx name = ''Icon not found: '' @ pfx @ '':'' @ name"

definition msg_empty_body :: "string \<Rightarrow> string \<Rightarrow> string" where
  "msg_empty_body pfx name = ''Empty icon body: '' @ pfx @ '':'' @ name"

definition msg_unsafe :: string where
  "msg_unsafe = ''Icon contains unsafe elements, skipping.''"

definition attribution :: "'v collection_doc \<Rightarrow> string \<Rightarrow> string \<Rightarrow> string list" where
  "attribution data pfx name =
     [''\<newline><!-- Icon: '' @ pfx @ '':'' @ name @ '' -->'',
      ''<!-- License: '' @ get_license_title data @ '' -->''] @
     (if truthy (license_url data)
      then [''<!-- License URL: '' @ the (license_url data) @ '' -->''] else [])"

definition get_svg_print ::
  "'v collection_doc \<Rightarrow> string \<Rightarrow> string \<Rightarrow> 'v icon_entry \<Rightarrow> int \<Rightarrow> string option \<Rightarrow> string list"
where
  "get_svg_print data pfx name icon sz color =
     (if is_empty icon then [msg_not_found pfx name]
      else let b = (case body icon of None \<Rightarrow> [] | Some b \<Rightarrow> b) in
        if b = [] then [msg_empty_body pfx name]
        else if \<not> sanitize_svg b then [msg_unsafe]
        else let w = (case width icon of None \<Rightarrow> sz | Some w \<Rightarrow> w);
                 h = (case height icon of None \<Rightarrow> sz | Some h \<Rightarrow> h)
             in build_svg b w h sz color # attribution data pfx name)"


section \<open>The match expression of \<open>search_index\<close>\<close>

text \<open>
  \<open>str.split()\<close> without argument cuts at runs of whitespace and yields no empty token.
\<close>

fun split_from :: "string \<Rightarrow> string \<Rightarrow> string list" where
  "split_from cur [] = (if cur = [] then [] else [cur])"
| "split_from cur (c # cs) =
     (if is_space c then (if cur = [] then split_from [] cs else cur # split_from [] cs)
      else split_from (cur @ [c]) cs)"

definition split :: "string \<Rightarrow> string list" where
  "split s = split_from [] s"



section \<open>Fetching with the cache: \<open>http_get\<close>\<close>

text \<open>
  The exceptions that the modelled code raises. \<open>URLError\<close> and \<open>HTTPError\<close> never leave
  \<open>http_get\<close>: it wraps them in a \<open>RuntimeError\<close>. \<open>UnicodeDecodeError\<close> is raised
  when bytes that are not UTF-8 are decoded, \<open>RemoteDisconnected\<close> stands for the
  failures of an open connection that \<open>urllib\<close> does not wrap in a \<open>URLError\<close> (the
  server closing the connection, a timeout or a short read while the body is read).
  \<open>OperationalError\<close> is the SQL engine's.
\<close>

datatype exn =
  RuntimeError | JSONDecodeError | UnicodeDecodeError | RemoteDisconnected |
  UnboundLocalError | NameError | OperationalError

text \<open>
  The cache file of a URL is absent (\<open>None\<close>), holds a document, holds text that is not
  JSON (\<open>Corrupt\<close>), or holds bytes that cannot be decoded as text (\<open>Undecodable\<close>).
  The network answers a request with a document, with a connection or HTTP error that
  \<open>urlopen\<close> raises as \<open>URLError\<close> or \<open>HTTPError\<close>, with a body that is text but not
  JSON, with a body that is not UTF-8, or the connection breaks in a way that is not
  reported as \<open>URLError\<close>. The cache key is a hash of the URL; two URLs are taken to
  have different files. The cache directory is taken to be readable and writable.
\<close>

datatype 'd cache_entry = Cached 'd | Corrupt | Undecodable

datatype 'd net_reply = NetOk 'd | NetError | NetMalformed | NetNotUtf8 | NetDropped

text \<open>
  \<^verbatim>\<open>
  def http_get(url, timeout=30.0):
      if cache_path.exists():
          try:
              with open(cache_path) as f: return json.load(f)
          except (json.JSONDecodeError, IOError): pass
      try:
          req = Request(url, ...)
          with urlopen(req, timeout=timeout) as resp:
              data = json.loads(resp.read().decode())
              with open(cache_path, "w") as f: json.dump(data, f, indent=2)
              return data
      except (URLError, HTTPError, json.JSONDecodeError) as e:
          if cache_path.exists():
              with open(cache_path) as f: return json.load(f)
          raise RuntimeError(f"Failed to fetch {url}: {e}")
  \<close>
  The function takes the network's answer for the URL and the URL's cache file, and
  returns its result with the cache file afterwards. The first read of the cache file
  catches the decoder's \<open>JSONDecodeError\<close> only: the \<open>UnicodeDecodeError\<close> of an
  undecodable file leaves the function there. The handler of the network request catches
  \<open>URLError\<close>, \<open>HTTPError\<close> and \<open>JSONDecodeError\<close>: a body that is not UTF-8 and a
  broken connection leave the function with their own exception. The second read of the
  cache file has no handler of its own: on a file that is not JSON its \<open>JSONDecodeError\<close>
  leaves the function.
\<close>

text \<open>The first read: the document, nothing (go on to the network), or an exception.\<close>

definition read_cache_first :: "'d cache_entry option \<Rightarrow> exn + 'd option" where
  "read_cache_first cache_file =
     (case cache_file of
        None \<Rightarrow> Inr None
      | Some (Cached d) \<Rightarrow> Inr (Some d)
      | Some Corrupt \<Rightarrow> Inr None
      | Some Undecodable \<Rightarrow> Inl UnicodeDecodeError)"

text \<open>The handler of the network request: \<open>if cache_path.exists(): ... raise RuntimeError\<close>.\<close>

definition stale_fallback :: "'d cache_entry option \<Rightarrow> exn + 'd" where
  "stale_fallback cache_file =
     (case cache_file of
        None \<Rightarrow> Inl RuntimeError
      | Some (Cached d) \<Rightarrow> Inr d
      | Some Corrupt \<Rightarrow> Inl JSONDecodeError
      | Some Undecodable \<Rightarrow> Inl UnicodeDecodeError)"

definition http_get ::
  "'d net_reply \<Rightarrow> 'd cache_entry option \<Rightarrow> (exn + 'd) \<times> 'd cache_entry option" where
  "http_get reply cache_file =
     (case read_cache_first cache_file of
        Inl e \<Rightarrow> (Inl e, cache_file)
      | Inr (Some d) \<Rightarrow> (Inr d, cache_file)
      | Inr None \<Rightarrow>
         (case reply of
            NetOk data \<Rightarrow> (Inr data, Some (Cached data))
          | NetError \<Rightarrow> (stale_fallback cache_file, cache_file)
          | NetMalformed \<Rightarrow> (stale_fallback cache_file, cache_file)
          | NetNotUtf8 \<Rightarrow> (Inl UnicodeDecodeError, cache_file)
          | NetDropped \<Rightarrow> (Inl RemoteDisconnected, cache_file)))"

text \<open>
  The network retrieval failed in one of the ways the handler catches: a connection or
  HTTP error, or a malformed body.
\<close>

fun net_failed :: "'d net_reply \<Rightarrow> bool" where
  "net_failed (NetOk d) = False"
| "net_failed NetError = True"
| "net_failed NetMalformed = True"
| "net_failed NetNotUtf8 = False"
| "net_failed NetDropped = False"


section \<open>Resolving the parent chain: \<open>resolve_aliases\<close>\<close>

text \<open>
  \<^verbatim>\<open>
  def resolve_aliases(data, name):
      icons = data.get("icons", {})
      current = icons.get(name, {})
      while "parent" in current:
          parent_name = current["parent"]
          current = icons.get(parent_name, {})
      return current
  \<close>
  The loop has no bound and no visited set. It is a partial function: where the loop does
  not end, the model has no result (\<open>None\<close>).
\<close>

partial_function (option) resolve_loop :: "'v icons \<Rightarrow> 'v icon_entry \<Rightarrow> 'v icon_entry option"
where
  "resolve_loop icons current =
     (case parent current of
        None \<Rightarrow> Some current
      | Some parent_name \<Rightarrow> resolve_loop icons (icons_get icons parent_name))"

declare resolve_loop.simps [code]

definition resolve_aliases :: "'v collection_doc \<Rightarrow> string \<Rightarrow> 'v icon_entry option" where
  "resolve_aliases data name =
     (let icons = get_icons data in resolve_loop icons (icons_get icons name))"

text \<open>
  The walk from an entry, as the specification describes it: \<open>resolve_steps\<close> follows
  the \<open>parent\<close> references for at most \<open>n\<close> steps and gives the entry it has reached
  (a name that is not in the table gives the empty entry); \<open>chain_ends\<close> says that the
  walk reaches an entry without a \<open>parent\<close> key within \<open>n\<close> steps.
\<close>

fun resolve_steps :: "'v icons \<Rightarrow> nat \<Rightarrow> 'v icon_entry \<Rightarrow> 'v icon_entry" where
  "resolve_steps icons 0 current = current"
| "resolve_steps icons (Suc n) current =
     (case parent current of
        None \<Rightarrow> current
      | Some parent_name \<Rightarrow> resolve_steps icons n (icons_get icons parent_name))"

fun chain_ends :: "'v icons \<Rightarrow> nat \<Rightarrow> 'v icon_entry \<Rightarrow> bool" where
  "chain_ends icons 0 current = (parent current = None)"
| "chain_ends icons (Suc n) current =
     (case parent current of
        None \<Rightarrow> True
      | Some parent_name \<Rightarrow> chain_ends icons n (icons_get icons parent_name))"


text \<open>
  \<open>get_svg\<close> from the fetched document on: resolve the icon, then print. It has no
  result where the resolution does not return.
  \<^verbatim>\<open>
  data = get_prefix_json(prefix)
  icon = resolve_aliases(data, name)
  if not icon: ...
  \<close>
\<close>

definition get_svg ::
  "'v collection_doc \<Rightarrow> string \<Rightarrow> string \<Rightarrow> int \<Rightarrow> string option \<Rightarrow> string list option"
where
  "get_svg data pfx name sz color =
     (case resolve_aliases data name of
        None \<Rightarrow> None
      | Some icon \<Rightarrow> Some (get_svg_print data pfx name icon sz color))"


section \<open>Flattening the aliases during a build\<close>

text \<open>
  \<open>d[k] = v\<close> and \<open>d.update(e)\<close> on an insertion-ordered dictionary: a key that is
  present keeps its place and takes the new value, a new key goes to the end.
\<close>

fun dict_set :: "'v dict \<Rightarrow> string \<Rightarrow> 'v \<Rightarrow> 'v dict" where
  "dict_set [] k v = [(k, v)]"
| "dict_set ((k', v') # d) k v =
     (if k' = k then (k, v) # d else (k', v') # dict_set d k v)"

fun dict_update :: "'v dict \<Rightarrow> 'v dict \<Rightarrow> 'v dict" where
  "dict_update d [] = d"
| "dict_update d ((k, v) # e) = dict_update (dict_set d k v) e"

text \<open>\<open>icon.get("aliases", {})\<close>.\<close>

definition get_aliases :: "'v icon_entry \<Rightarrow> 'v dict" where
  "get_aliases e = (case aliases e of None \<Rightarrow> [] | Some d \<Rightarrow> d)"

text \<open>
  The alias dictionary of the entry \<open>name\<close> is an object inside the icon table. Updating
  that object in place changes the table: \<open>store_aliases\<close> writes the new contents to
  the entry.
\<close>

fun store_aliases :: "'v icons \<Rightarrow> string \<Rightarrow> 'v dict \<Rightarrow> 'v icons" where
  "store_aliases [] name d = []"
| "store_aliases ((k, e) # rest) name d =
     (if k = name then (k, e\<lparr>aliases := Some d\<rparr>) # rest else (k, e) # store_aliases rest name d)"

text \<open>
  \<^verbatim>\<open>
  aliases = icon.get("aliases", {})
  parent = icon.get("parent")
  while parent:
      parent_icon = icons.get(parent, {})
      parent_aliases = parent_icon.get("aliases", {})
      aliases.update(parent_aliases)
      parent = parent_icon.get("parent")
  \<close>
  When the icon has an \<open>aliases\<close> key, the variable \<open>aliases\<close> refers to the icon's own
  dictionary (\<open>attached\<close>), and each update is an update of the table. When it has none,
  \<open>aliases\<close> is a fresh dictionary that no entry holds. The loop state is the table, the
  contents of \<open>aliases\<close> and \<open>parent\<close>.
\<close>

partial_function (option) flatten_loop ::
  "string \<Rightarrow> bool \<Rightarrow> 'v icons \<Rightarrow> 'v dict \<Rightarrow> string option \<Rightarrow> ('v icons \<times> 'v dict) option"
where
  "flatten_loop name attached icons als par =
     (if truthy par then
        (let parent_icon = icons_get icons (the par);
             parent_aliases = get_aliases parent_icon;
             als' = dict_update als parent_aliases;
             icons' = (if attached then store_aliases icons name als' else icons)
         in flatten_loop name attached icons' als' (parent parent_icon))
      else Some (icons, als))"

declare flatten_loop.simps [code]

definition flatten_aliases :: "'v icons \<Rightarrow> string \<Rightarrow> ('v icons \<times> 'v dict) option" where
  "flatten_aliases icons name =
     (let icon = icons_get icons name
      in flatten_loop name (aliases icon \<noteq> None) icons (get_aliases icon) (parent icon))"

text \<open>
  The same walk with \<open>while parent\<close> as its test: it ends at an entry whose \<open>parent\<close>
  is absent or empty.
\<close>

fun parents_end :: "'v icons \<Rightarrow> nat \<Rightarrow> string option \<Rightarrow> bool" where
  "parents_end icons 0 par = (\<not> truthy par)"
| "parents_end icons (Suc n) par =
     (\<not> truthy par \<or> parents_end icons n (parent (icons_get icons (the par))))"


text \<open>
  The flattening as the specification describes it, on a table that is not changed: start
  from the icon's own aliases and, walking up the parents for at most \<open>n\<close> steps,
  update with each ancestor's aliases. \<open>visits\<close> says that the walk comes by the name
  \<open>x\<close> within \<open>n\<close> steps.
\<close>

fun chain_aliases :: "'v icons \<Rightarrow> nat \<Rightarrow> 'v dict \<Rightarrow> string option \<Rightarrow> 'v dict" where
  "chain_aliases icons 0 als par = als"
| "chain_aliases icons (Suc n) als par =
     (if truthy par
      then (let parent_icon = icons_get icons (the par)
            in chain_aliases icons n (dict_update als (get_aliases parent_icon))
                 (parent parent_icon))
      else als)"

fun visits :: "'v icons \<Rightarrow> nat \<Rightarrow> string option \<Rightarrow> string \<Rightarrow> bool" where
  "visits icons 0 par x = False"
| "visits icons (Suc n) par x =
     (truthy par \<and> (the par = x \<or> visits icons n (parent (icons_get icons (the par))) x))"


section \<open>The index tables\<close>

text \<open>
  The two tables of the index, as the rows inserted through the open connection, in
  insertion order. The \<open>oid\<close> column of \<open>icons\<close> is assigned by the engine and is left
  out.
\<close>

record icon_row =
  row_prefix :: string
  row_name :: string
  row_full_id :: string
  row_aliases :: string
  row_license :: string

record fts_row =
  fts_prefix :: string
  fts_name :: string
  fts_full_id :: string
  fts_tokens :: string

record tables =
  icons_tbl :: "icon_row list"
  icons_fts :: "fts_row list"

text \<open>\<open>DELETE FROM icons\<close> and \<open>DELETE FROM icons_fts\<close>.\<close>

definition cleared :: tables where
  "cleared = \<lparr>icons_tbl = [], icons_fts = []\<rparr>"

text \<open>The two \<open>INSERT\<close> statements of one icon.\<close>

definition insert_icon :: "tables \<Rightarrow> string \<Rightarrow> string \<Rightarrow> string \<Rightarrow> string \<Rightarrow> tables" where
  "insert_icon tb pfx name alias_str license =
     (let full_id = pfx @ '':'' @ name;
          tb = tb\<lparr>icons_tbl := icons_tbl tb @
                 [\<lparr>row_prefix = pfx, row_name = name, row_full_id = full_id,
                   row_aliases = alias_str, row_license = license\<rparr>]\<rparr>;
          tb = tb\<lparr>icons_fts := icons_fts tb @
                 [\<lparr>fts_prefix = pfx, fts_name = name, fts_full_id = full_id,
                   fts_tokens = name @ '' '' @ alias_str\<rparr>]\<rparr>
      in tb)"


text \<open>
  The columns that the two tables share, and what it means for the tables to agree: the
  row counts are equal, every row of \<open>icons\<close> has \<open>full_id = prefix:name\<close>, and for
  the \<open>(prefix, name, full_id)\<close> of every row of either table there is exactly one row
  with these values in \<open>icons\<close> and exactly one in \<open>icons_fts\<close>.
\<close>

definition icon_key :: "icon_row \<Rightarrow> string \<times> string \<times> string" where
  "icon_key r = (row_prefix r, row_name r, row_full_id r)"

definition fts_key :: "fts_row \<Rightarrow> string \<times> string \<times> string" where
  "fts_key r = (fts_prefix r, fts_name r, fts_full_id r)"

definition icons_matching :: "tables \<Rightarrow> string \<times> string \<times> string \<Rightarrow> icon_row list" where
  "icons_matching tb k = filter (\<lambda>r. icon_key r = k) (icons_tbl tb)"

definition fts_matching :: "tables \<Rightarrow> string \<times> string \<times> string \<Rightarrow> fts_row list" where
  "fts_matching tb k = filter (\<lambda>r. fts_key r = k) (icons_fts tb)"

definition tables_agree :: "tables \<Rightarrow> bool" where
  "tables_agree tb \<longleftrightarrow>
     length (icons_tbl tb) = length (icons_fts tb) \<and>
     list_all (\<lambda>r. row_full_id r = row_prefix r @ '':'' @ row_name r \<and>
                   length (icons_matching tb (icon_key r)) = 1 \<and>
                   length (fts_matching tb (icon_key r)) = 1) (icons_tbl tb) \<and>
     list_all (\<lambda>r. length (icons_matching tb (fts_key r)) = 1 \<and>
                   length (fts_matching tb (fts_key r)) = 1) (icons_fts tb)"

text \<open>
  The documents come from JSON objects, whose keys are distinct: the icon names of a
  collection document, and the prefixes of the collection list.
\<close>

definition wf_doc :: "'v collection_doc \<Rightarrow> bool" where
  "wf_doc data \<longleftrightarrow> distinct (map fst (get_icons data))"

fun wf_reply :: "('d \<Rightarrow> bool) \<Rightarrow> 'd net_reply \<Rightarrow> bool" where
  "wf_reply ok (NetOk d) = ok d"
| "wf_reply ok NetError = True"
| "wf_reply ok NetMalformed = True"
| "wf_reply ok NetNotUtf8 = True"
| "wf_reply ok NetDropped = True"

fun wf_cache_file :: "('d \<Rightarrow> bool) \<Rightarrow> 'd cache_entry option \<Rightarrow> bool" where
  "wf_cache_file ok (Some (Cached d)) = ok d"
| "wf_cache_file ok (Some Corrupt) = True"
| "wf_cache_file ok (Some Undecodable) = True"
| "wf_cache_file ok None = True"


text \<open>
  The key of the rows of one icon, and the invariant of the build loops: the two tables
  list the same keys in the same order, no key twice, and every key is the key of an
  icon of a collection that has been visited.
\<close>

definition key_of :: "string \<Rightarrow> string \<Rightarrow> string \<times> string \<times> string" where
  "key_of pfx name = (pfx, name, pfx @ '':'' @ name)"

definition rows_inv :: "string set \<Rightarrow> tables \<Rightarrow> bool" where
  "rows_inv P tb \<longleftrightarrow>
     map icon_key (icons_tbl tb) = map fts_key (icons_fts tb) \<and>
     distinct (map icon_key (icons_tbl tb)) \<and>
     (\<forall>k\<in>set (map icon_key (icons_tbl tb)). \<exists>p n. k = key_of p n \<and> p \<in> P)"


section \<open>The index build of \<open>build_index.py\<close>\<close>

text \<open>
  The body of \<open>for name, icon in icons.items()\<close> (the same text in \<open>build_index.py\<close> and
  in \<open>update_bundled_data.py\<close>): flatten the aliases, insert the two rows, count. The
  loop runs over the names of the dictionary and carries the icon table, which the
  flattening updates. A flattening that does not end leaves the whole loop without result.
\<close>

fun index_icons ::
  "string \<Rightarrow> string \<Rightarrow> string list \<Rightarrow> 'v icons \<Rightarrow> tables \<Rightarrow> nat \<Rightarrow> ('v icons \<times> tables \<times> nat) option"
where
  "index_icons pfx license [] icons tb count = Some (icons, tb, count)"
| "index_icons pfx license (name # names) icons tb count =
     (case flatten_aliases icons name of
        None \<Rightarrow> None
      | Some (icons', als) \<Rightarrow>
         (let alias_str = join '' '' (map fst als)
          in index_icons pfx license names icons' (insert_icon tb pfx name alias_str license)
               (count + 1)))"

text \<open>
  The network and the cache as the build sees them: the collection list under
  \<open>COLLECTIONS_URL\<close> (its keys, in dictionary order) and one document per prefix under
  the prefix's URL.
\<close>

record 'v env =
  net_list :: "string list net_reply"
  net_docs :: "string \<Rightarrow> 'v collection_doc net_reply"

record 'v build_state =
  list_cache :: "string list cache_entry option"
  doc_cache :: "string \<Rightarrow> 'v collection_doc cache_entry option"
  tbls :: tables
  total_icons :: nat
  errors :: "(string \<times> exn) list"

definition wf_env :: "'v env \<Rightarrow> bool" where
  "wf_env env \<longleftrightarrow> wf_reply distinct (net_list env) \<and> (\<forall>p. wf_reply wf_doc (net_docs env p))"

definition wf_caches ::
  "string list cache_entry option \<Rightarrow> (string \<Rightarrow> 'v collection_doc cache_entry option) \<Rightarrow> bool"
where
  "wf_caches lc dc \<longleftrightarrow> wf_cache_file distinct lc \<and> (\<forall>p. wf_cache_file wf_doc (dc p))"

text \<open>\<open>if prefixes:\<close> for an optional list.\<close>

fun list_truthy :: "'a list option \<Rightarrow> bool" where
  "list_truthy None = False"
| "list_truthy (Some xs) = (xs \<noteq> [])"

text \<open>
  \<^verbatim>\<open>
  for prefix in sorted(collections.keys()):
      try:
          data = http_get(f"{GITHUB_COLLECTION_URL}/{prefix}.json")
          icons = data.get("icons", {})
          license_title = data.get("license", {}).get("title", "Unknown")
          count = 0
          for name, icon in icons.items(): ...
          total_icons += count
      except (URLError, HTTPError, KeyError, json.JSONDecodeError) as e:
          errors.append((prefix, str(e)))
  \<close>
  Of the exceptions of the model the handler catches \<open>JSONDecodeError\<close> only. Any other
  exception leaves the loop (\<open>Some e\<close> in the result) for the handler around the whole
  build.
\<close>

definition soft_error :: "exn \<Rightarrow> bool" where
  "soft_error e \<longleftrightarrow> e = JSONDecodeError"

fun index_collections ::
  "(string \<Rightarrow> 'v collection_doc net_reply) \<Rightarrow> string list \<Rightarrow> 'v build_state \<Rightarrow>
     (exn option \<times> 'v build_state) option"
where
  "index_collections net [] st = Some (None, st)"
| "index_collections net (pfx # rest) st =
     (case http_get (net pfx) (doc_cache st pfx) of
        (Inl e, cache_file) \<Rightarrow>
          (let st = st\<lparr>doc_cache := (doc_cache st)(pfx := cache_file)\<rparr>
           in if soft_error e
              then index_collections net rest (st\<lparr>errors := errors st @ [(pfx, e)]\<rparr>)
              else Some (Some e, st))
      | (Inr data, cache_file) \<Rightarrow>
          (let st = st\<lparr>doc_cache := (doc_cache st)(pfx := cache_file)\<rparr>;
               icons = get_icons data
           in case index_icons pfx (get_license_title data) (map fst icons) icons (tbls st) 0 of
                None \<Rightarrow> None
              | Some (icons', tb, count) \<Rightarrow>
                  index_collections net rest
                    (st\<lparr>tbls := tb, total_icons := total_icons st + count\<rparr>)))"

text \<open>
  \<open>build_index(prefixes, force)\<close> of \<open>build_index.py\<close>. \<open>AlreadyExists\<close>: the index file
  exists and \<open>force\<close> is off, nothing is touched, return 0. \<open>Completed\<close>: the commit is
  reached, return 0; the state holds the committed tables. \<open>Failed\<close>: an exception
  reached \<open>except Exception\<close> around the build, the connection is closed without a
  commit, return 1; the state holds what the connection had inserted by then. No result:
  the build does not return.
\<close>

datatype 'v outcome = AlreadyExists | Completed "'v build_state" | Failed exn "'v build_state"

definition build_index ::
  "'v env \<Rightarrow> string list option \<Rightarrow> bool \<Rightarrow> bool \<Rightarrow> string list cache_entry option \<Rightarrow>
     (string \<Rightarrow> 'v collection_doc cache_entry option) \<Rightarrow> 'v outcome option"
where
  "build_index env pfxs force index_exists lc dc =
     (if index_exists \<and> \<not> force then Some AlreadyExists
      else
        (let st = \<lparr>list_cache = lc, doc_cache = dc, tbls = cleared, total_icons = 0,
                   errors = []\<rparr>
         in case http_get (net_list env) lc of
              (Inl e, cache_file) \<Rightarrow> Some (Failed e (st\<lparr>list_cache := cache_file\<rparr>))
            | (Inr collections, cache_file) \<Rightarrow>
                (let st = st\<lparr>list_cache := cache_file\<rparr>;
                     collections = (if list_truthy pfxs
                                    then filter (\<lambda>k. k \<in> set (the pfxs)) collections
                                    else collections)
                 in case index_collections (net_docs env) (sort collections) st of
                      None \<Rightarrow> None
                    | Some (Some e, st') \<Rightarrow> Some (Failed e st')
                    | Some (None, st') \<Rightarrow> Some (Completed st'))))"


text \<open>
  What a build has done, read off its result: the exception that ended it, the
  \<open>full_id\<close>s inserted through the connection, and the soft errors recorded.
\<close>

definition failure_of :: "'v outcome option \<Rightarrow> exn option" where
  "failure_of r = (case r of Some (Failed e st) \<Rightarrow> Some e | _ \<Rightarrow> None)"

definition inserted_ids :: "'v outcome option \<Rightarrow> string list" where
  "inserted_ids r =
     (case r of
        Some (Failed e st) \<Rightarrow> map row_full_id (icons_tbl (tbls st))
      | Some (Completed st) \<Rightarrow> map row_full_id (icons_tbl (tbls st))
      | _ \<Rightarrow> [])"

definition soft_errors_of :: "'v outcome option \<Rightarrow> (string \<times> exn) list" where
  "soft_errors_of r =
     (case r of Some (Failed e st) \<Rightarrow> errors st | Some (Completed st) \<Rightarrow> errors st | _ \<Rightarrow> [])"

definition committed :: "'v outcome option \<Rightarrow> bool" where
  "committed r = (case r of Some (Completed st) \<Rightarrow> True | _ \<Rightarrow> False)"


section \<open>The index build of \<open>update_bundled_data.py\<close>\<close>

text \<open>
  This script has its own \<open>http_get\<close>, without a cache, and its loop catches every
  exception of a collection and goes on.
  \<^verbatim>\<open>
  def http_get(url, timeout=30.0):
      try: ... return json.loads(resp.read().decode())
      except (URLError, HTTPError, json.JSONDecodeError) as e:
          raise RuntimeError(f"Failed to fetch {url}: {e}")

  for prefix in sorted(collections.keys()):
      if prefixes and prefix not in prefixes: continue
      try: ...
      except Exception as e:
          print(f"Failed: {e}"); continue
  conn.commit()
  \<close>
\<close>

definition bundled_http_get :: "'d net_reply \<Rightarrow> exn + 'd" where
  "bundled_http_get reply =
     (case reply of
        NetOk data \<Rightarrow> Inr data
      | NetError \<Rightarrow> Inl RuntimeError
      | NetMalformed \<Rightarrow> Inl RuntimeError
      | NetNotUtf8 \<Rightarrow> Inl UnicodeDecodeError
      | NetDropped \<Rightarrow> Inl RemoteDisconnected)"

fun bundled_index_collections ::
  "(string \<Rightarrow> 'v collection_doc net_reply) \<Rightarrow> string list option \<Rightarrow> string list \<Rightarrow> tables \<Rightarrow> nat \<Rightarrow>
     (tables \<times> nat) option"
where
  "bundled_index_collections net pfxs [] tb tot = Some (tb, tot)"
| "bundled_index_collections net pfxs (pfx # rest) tb tot =
     (if list_truthy pfxs \<and> pfx \<notin> set (the pfxs)
      then bundled_index_collections net pfxs rest tb tot
      else case bundled_http_get (net pfx) of
             Inl e \<Rightarrow> bundled_index_collections net pfxs rest tb tot
           | Inr data \<Rightarrow>
              (let icons = get_icons data
               in case index_icons pfx (get_license_title data) (map fst icons) icons tb 0 of
                    None \<Rightarrow> None
                  | Some (icons', tb', count) \<Rightarrow>
                      bundled_index_collections net pfxs rest tb' (tot + count)))"

definition bundled_build_index ::
  "(string \<Rightarrow> 'v collection_doc net_reply) \<Rightarrow> string list \<Rightarrow> string list option \<Rightarrow>
     (tables \<times> nat) option"
where
  "bundled_build_index net collections pfxs =
     bundled_index_collections net pfxs (sort collections) cleared 0"


section \<open>The index build of \<open>iconify_cli.py\<close>\<close>

text \<open>
  Names are resolved as Python does. A name that a function assigns anywhere in its body
  is a local of that function; reading it before the first assignment raises
  \<open>UnboundLocalError\<close>. A name that is not local is looked up among the names the module
  defines or imports; a missing one raises \<open>NameError\<close>. \<open>ensure_data_dir\<close> is defined
  in \<open>update_bundled_data.py\<close> only.
\<close>

definition read_local :: "'a option \<Rightarrow> exn + 'a" where
  "read_local var = (case var of None \<Rightarrow> Inl UnboundLocalError | Some x \<Rightarrow> Inr x)"

definition cli_module_names :: "string list" where
  "cli_module_names =
     [''ensure_cache_dir'', ''get_cache_path'', ''http_get'', ''load_collections'',
      ''has_bundled_index'', ''get_prefix_json'', ''list_collections'', ''search_icons'',
      ''search_index'', ''build_index'', ''get_icon_data'', ''resolve_aliases'',
      ''sanitize_svg'', ''get_svg'', ''suggest_icons'', ''show_attribution'', ''doctor'',
      ''main'']"

definition read_global :: "string \<Rightarrow> exn + unit" where
  "read_global name = (if name \<in> set cli_module_names then Inr () else Inl NameError)"

text \<open>
  The loop of the command-line build: no flattening, the icon's own alias keys only, and
  every exception of a collection is caught.
  \<^verbatim>\<open>
  for prefix in collections:
      try:
          data = get_prefix_json(prefix)
          icons = data.get("icons", {})
          for name, icon in icons.items():
              full_id = f"{prefix}:{name}"
              aliases = " ".join(icon.get("aliases", {}).keys())
              license_info = data.get("license", {}).get("title", "Unknown")
              cursor.execute("INSERT INTO icons ...")
              cursor.execute("INSERT INTO icons_fts ...")
              total += 1
      except Exception as e:
          print(f"Warning: Failed to index {prefix}: {e}"); continue
  \<close>
\<close>

fun cli_index_icons :: "string \<Rightarrow> string \<Rightarrow> 'v icons \<Rightarrow> tables \<Rightarrow> nat \<Rightarrow> tables \<times> nat" where
  "cli_index_icons pfx license [] tb tot = (tb, tot)"
| "cli_index_icons pfx license ((name, icon) # rest) tb tot =
     cli_index_icons pfx license rest
       (insert_icon tb pfx name (join '' '' (map fst (get_aliases icon))) license) (tot + 1)"

fun cli_index_collections ::
  "(string \<Rightarrow> 'v collection_doc net_reply) \<Rightarrow> string list \<Rightarrow> 'v build_state \<Rightarrow> 'v build_state"
where
  "cli_index_collections net [] st = st"
| "cli_index_collections net (pfx # rest) st =
     (case http_get (net pfx) (doc_cache st pfx) of
        (Inl e, cache_file) \<Rightarrow>
          cli_index_collections net rest (st\<lparr>doc_cache := (doc_cache st)(pfx := cache_file)\<rparr>)
      | (Inr data, cache_file) \<Rightarrow>
          (let st = st\<lparr>doc_cache := (doc_cache st)(pfx := cache_file)\<rparr>;
               (tb, tot) = cli_index_icons pfx (get_license_title data) (get_icons data)
                             (tbls st) (total_icons st)
           in cli_index_collections net rest (st\<lparr>tbls := tb, total_icons := tot\<rparr>)))"

text \<open>
  \<^verbatim>\<open>
  def build_index(force=False, bundle=False, prefixes=None):
      if bundle:
          index_path = BUNDLE_INDEX
          ensure_data_dir()
      else:
          index_path = get_cache_path("icons.db")
      if index_path.exists() and not force:
          print("Index already exists. Use --force to rebuild."); return
      conn = sqlite3.connect(str(index_path)); cursor = conn.cursor()
      ... CREATE ... ; cursor.execute("DELETE FROM icons"); cursor.execute("DELETE FROM icons_fts")
      ... write index_meta.json ...
      if prefixes:
          collections = {k: v for k, v in collections.items() if k in prefixes}
      total = 0
      for prefix in collections: ...
      conn.commit(); conn.close()
  \<close>
  \<open>collections\<close> is a local of this function and has no assignment before these reads.
  Outcomes: \<open>CliExists\<close>, the function returns at the existing index; \<open>CliRaised e st\<close>,
  the exception \<open>e\<close> leaves the function, with the state of the open connection if
  there is one; \<open>CliCommitted\<close>, the commit is reached.
\<close>

datatype 'v cli_outcome =
  CliExists | CliRaised exn "'v build_state option" | CliCommitted "'v build_state"

definition cli_build_index ::
  "'v env \<Rightarrow> bool \<Rightarrow> bool \<Rightarrow> string list option \<Rightarrow> bool \<Rightarrow> bool \<Rightarrow> string list cache_entry option \<Rightarrow>
     (string \<Rightarrow> 'v collection_doc cache_entry option) \<Rightarrow> 'v cli_outcome"
where
  "cli_build_index env force bundle pfxs cache_index_exists bundle_index_exists lc dc =
     (case (if bundle then read_global ''ensure_data_dir'' else Inr ()) of
        Inl e \<Rightarrow> CliRaised e None
      | Inr _ \<Rightarrow>
         (let index_exists = (if bundle then bundle_index_exists else cache_index_exists)
          in if index_exists \<and> \<not> force then CliExists
             else
               (let st = \<lparr>list_cache = lc, doc_cache = dc, tbls = cleared, total_icons = 0,
                          errors = []\<rparr>;
                    collections = (None :: string list option)
                in case (if list_truthy pfxs
                         then (case read_local collections of
                                 Inl e \<Rightarrow> Inl e
                               | Inr c \<Rightarrow> Inr (Some (filter (\<lambda>k. k \<in> set (the pfxs)) c)))
                         else Inr collections) of
                     Inl e \<Rightarrow> CliRaised e (Some st)
                   | Inr collections \<Rightarrow>
                      (case read_local collections of
                         Inl e \<Rightarrow> CliRaised e (Some st)
                       | Inr c \<Rightarrow> CliCommitted (cli_index_collections (net_docs env) c st)))))"


section \<open>Searching: \<open>search_icons\<close> and \<open>search_index\<close>\<close>













section \<open>Sample data\<close>


definition dot_body :: string where
  "dot_body = ''<path d='' @ [CHR 0x27] @ ''M10 10'' @ [CHR 0x27] @ ''/>''"

definition dot_doc :: "unit collection_doc" where
  "dot_doc =
     \<lparr>doc_icons = Some [(''dot'', empty_entry\<lparr>body := Some dot_body, width := Some 24,
                                      height := Some 24\<rparr>)],
      license_title = Some ''MIT'', license_url = None\<rparr>"

text \<open>
  A body with an \<open>href\<close> attribute that points at an \<open>http\<close> resource and an
  \<open>onload\<close> attribute, both written with whitespace at the equals sign.
\<close>

definition spaced_body :: string where
  \<open>spaced_body = ''<a href = "http://e.com" onload ="x()"><path/></a>''\<close>

definition spaced_doc :: "unit collection_doc" where
  "spaced_doc =
     \<lparr>doc_icons = Some [(''link'', empty_entry\<lparr>body := Some spaced_body\<rparr>)],
      license_title = None, license_url = None\<rparr>"

text \<open>Three icons whose parent references form a cycle.\<close>

definition cycle_icons :: "unit icons" where
  "cycle_icons =
     [(''A'', empty_entry\<lparr>parent := Some ''B''\<rparr>),
      (''B'', empty_entry\<lparr>parent := Some ''C''\<rparr>),
      (''C'', empty_entry\<lparr>parent := Some ''A''\<rparr>)]"

text \<open>An icon with one alias and a child that inherits from it.\<close>

definition family_icons :: "unit icons" where
  "family_icons =
     [(''home'', empty_entry\<lparr>aliases := Some [(''house'', ())], body := Some ''<path/>''\<rparr>),
      (''home-alt'', empty_entry\<lparr>parent := Some ''home'', aliases := Some [(''cottage'', ())]\<rparr>),
      (''home-bare'', empty_entry\<lparr>parent := Some ''home''\<rparr>)]"


text \<open>No network and nothing cached.\<close>

definition offline :: "unit env" where
  "offline = \<lparr>net_list = NetError, net_docs = (\<lambda>p. NetError)\<rparr>"

definition empty_cache :: "string \<Rightarrow> unit collection_doc cache_entry option" where
  "empty_cache = (\<lambda>p. None)"

text \<open>
  A collection document with the single icon \<open>home\<close>; two collections that both serve
  it; three collections of which the second cannot be fetched.
\<close>

definition home_doc :: "unit collection_doc" where
  "home_doc =
     \<lparr>doc_icons = Some [(''home'', empty_entry\<lparr>body := Some ''<path/>''\<rparr>)],
      license_title = Some ''MIT'', license_url = None\<rparr>"

definition two_collections :: "unit env" where
  "two_collections = \<lparr>net_list = NetOk [''c1'', ''c2''], net_docs = (\<lambda>p. NetOk home_doc)\<rparr>"

definition three_collections :: "unit env" where
  "three_collections =
     \<lparr>net_list = NetOk [''a'', ''b'', ''c''],
      net_docs = (\<lambda>p. if p = ''b'' then NetError else NetOk home_doc)\<rparr>"


section \<open>Facts about strings\<close>

lemma contains_iff: "contains pat s \<longleftrightarrow> (\<exists>xs zs. s = xs @ pat @ zs)"
proof (induction s)
  case Nil
  then show ?case by auto
next
  case (Cons c cs)
  show ?case
  proof
    assume "contains pat (c # cs)"
    then consider "prefix pat (c # cs)" | "contains pat cs" by auto
    then show "\<exists>xs zs. c # cs = xs @ pat @ zs"
    proof cases
      case 1
      then obtain zs where "c # cs = pat @ zs" by (auto simp: prefix_def)
      then have "c # cs = [] @ pat @ zs" by simp
      then show ?thesis by blast
    next
      case 2
      with Cons.IH obtain xs zs where "cs = xs @ pat @ zs" by blast
      then have "c # cs = (c # xs) @ pat @ zs" by simp
      then show ?thesis by blast
    qed
  next
    assume "\<exists>xs zs. c # cs = xs @ pat @ zs"
    then obtain xs zs where eq: "c # cs = xs @ pat @ zs" by blast
    show "contains pat (c # cs)"
    proof (cases xs)
      case Nil
      with eq have "prefix pat (c # cs)" by (simp add: prefix_def)
      then show ?thesis by simp
    next
      case (Cons x xs')
      with eq have "cs = xs' @ pat @ zs" by simp
      with Cons.IH show ?thesis by auto
    qed
  qed
qed







lemma is_empty_body: "body e = Some b \<Longrightarrow> \<not> is_empty e"
  by (simp add: is_empty_def)


section \<open>Facts about tokens and the match expression\<close>





section \<open>Facts about the parent walk\<close>

lemma resolve_ends:
  "chain_ends icons n current \<Longrightarrow>
     resolve_loop icons current = Some (resolve_steps icons n current) \<and>
     parent (resolve_steps icons n current) = None"
proof (induction n arbitrary: current)
  case 0
  then show ?case by (subst resolve_loop.simps) simp
next
  case (Suc n)
  show ?case
  proof (cases "parent current")
    case None
    then show ?thesis by (subst resolve_loop.simps) simp
  next
    case (Some p)
    with Suc.prems have "chain_ends icons n (icons_get icons p)" by simp
    from Suc.IH [OF this]
    have "resolve_loop icons (icons_get icons p) = Some (resolve_steps icons n (icons_get icons p))"
      and "parent (resolve_steps icons n (icons_get icons p)) = None"
      by simp_all
    with Some show ?thesis by (subst resolve_loop.simps) simp
  qed
qed

lemma resolve_only_if:
  assumes "resolve_loop icons current = Some e"
  shows "(\<exists>n. chain_ends icons n current) \<and> parent e = None"
proof (rule resolve_loop.raw_induct
    [where P = "\<lambda>i c e. (\<exists>n. chain_ends i n c) \<and> parent e = None", OF _ assms])
  fix f and icons :: "'a icons" and current e :: "'a icon_entry"
  assume IH: "\<And>icons current e. f icons current = Some e \<Longrightarrow>
      (\<exists>n. chain_ends icons n current) \<and> parent e = None"
    and eq: "(case parent current of None \<Rightarrow> Some current
              | Some parent_name \<Rightarrow> f icons (icons_get icons parent_name)) = Some e"
  show "(\<exists>n. chain_ends icons n current) \<and> parent e = None"
  proof (cases "parent current")
    case None
    then have "chain_ends icons 0 current" by simp
    moreover from None eq have "parent e = None" by auto
    ultimately show ?thesis by blast
  next
    case (Some p)
    with eq have "f icons (icons_get icons p) = Some e" by simp
    from IH [OF this] obtain n where "chain_ends icons n (icons_get icons p)"
      and e: "parent e = None" by blast
    with Some have "chain_ends icons (Suc n) current" by simp
    with e show ?thesis by blast
  qed
qed

lemma store_get_other:
  "k \<noteq> name \<Longrightarrow> icons_get (store_aliases icons name d) k = icons_get icons k"
  by (induction icons name d rule: store_aliases.induct) (auto simp: icons_get_def)

lemma store_get_parent:
  "parent (icons_get (store_aliases icons name d) k) = parent (icons_get icons k)"
  by (induction icons name d rule: store_aliases.induct) (auto simp: icons_get_def)

lemma store_store:
  "store_aliases (store_aliases icons name a) name b = store_aliases icons name b"
  by (induction icons name a rule: store_aliases.induct) auto

lemma store_same:
  "map_of icons name = Some e \<Longrightarrow> aliases e = Some d \<Longrightarrow> store_aliases icons name d = icons"
  by (induction icons name d rule: store_aliases.induct) (auto split: if_splits)

lemma store_get_same:
  "map_of icons name = Some e \<Longrightarrow>
     icons_get (store_aliases icons name d) name = e\<lparr>aliases := Some d\<rparr>"
  by (induction icons name d rule: store_aliases.induct)
    (auto simp: icons_get_def split: if_splits)

lemma store_keys: "map fst (store_aliases icons name d) = map fst icons"
  by (induction icons name d rule: store_aliases.induct) auto

lemma parents_end_store:
  "parents_end (store_aliases icons name d) n par = parents_end icons n par"
  by (induction n arbitrary: par) (simp_all add: store_get_parent)

lemma keys_dict_set: "fst ` set (dict_set d k v) = insert k (fst ` set d)"
  by (induction d k v rule: dict_set.induct) auto

lemma keys_dict_update: "fst ` set (dict_update d e) = fst ` set d \<union> fst ` set e"
  by (induction d e rule: dict_update.induct) (auto simp: keys_dict_set)

lemma flatten_ends:
  "parents_end icons n par \<Longrightarrow> \<exists>r. flatten_loop name attached icons als par = Some r"
proof (induction n arbitrary: icons als par)
  case 0
  then show ?case by (subst flatten_loop.simps) simp
next
  case (Suc n)
  show ?case
  proof (cases "truthy par")
    case False
    then show ?thesis by (subst flatten_loop.simps) simp
  next
    case True
    let ?pi = "icons_get icons (the par)"
    let ?als = "dict_update als (get_aliases ?pi)"
    let ?icons = "if attached then store_aliases icons name ?als else icons"
    from True Suc.prems have "parents_end icons n (parent ?pi)" by simp
    then have "parents_end ?icons n (parent ?pi)" by (simp add: parents_end_store)
    from Suc.IH [OF this]
    obtain r where "flatten_loop name attached ?icons ?als (parent ?pi) = Some r"
      by blast
    with True have "flatten_loop name attached icons als par = Some r"
      by (subst flatten_loop.simps) (simp add: Let_def)
    then show ?thesis ..
  qed
qed

text \<open>
  What a run of the flattening loop that ends has done: without an iteration nothing;
  otherwise the table differs from the one at the start only when \<open>aliases\<close> is the
  icon's own dictionary, which then holds the final contents. No key is ever removed.
\<close>

lemma flatten_loop_result:
  assumes "flatten_loop name attached icons als par = Some r"
  shows "(\<exists>n. parents_end icons n par) \<and>
         (\<not> truthy par \<longrightarrow> r = (icons, als)) \<and>
         (truthy par \<longrightarrow> fst r = (if attached then store_aliases icons name (snd r) else icons)) \<and>
         fst ` set als \<subseteq> fst ` set (snd r)"
proof (rule flatten_loop.raw_induct [where P = "\<lambda>name attached icons als par r.
         (\<exists>n. parents_end icons n par) \<and>
         (\<not> truthy par \<longrightarrow> r = (icons, als)) \<and>
         (truthy par \<longrightarrow> fst r = (if attached then store_aliases icons name (snd r) else icons)) \<and>
         fst ` set als \<subseteq> fst ` set (snd r)", OF _ assms])
  fix f name attached and icons :: "'a icons" and als par r
  assume IH: "\<And>name attached icons als par r. f name attached icons als par = Some r \<Longrightarrow>
         (\<exists>n. parents_end icons n par) \<and>
         (\<not> truthy par \<longrightarrow> r = (icons, als)) \<and>
         (truthy par \<longrightarrow> fst r = (if attached then store_aliases icons name (snd r) else icons)) \<and>
         fst ` set als \<subseteq> fst ` set (snd r)"
    and eq: "(if truthy par then
        (let parent_icon = icons_get icons (the par);
             parent_aliases = get_aliases parent_icon;
             als' = dict_update als parent_aliases;
             icons' = (if attached then store_aliases icons name als' else icons)
         in f name attached icons' als' (parent parent_icon))
      else Some (icons, als)) = Some r"
  show "(\<exists>n. parents_end icons n par) \<and>
         (\<not> truthy par \<longrightarrow> r = (icons, als)) \<and>
         (truthy par \<longrightarrow> fst r = (if attached then store_aliases icons name (snd r) else icons)) \<and>
         fst ` set als \<subseteq> fst ` set (snd r)"
  proof (cases "truthy par")
    case False
    then have "parents_end icons 0 par" by simp
    then have "\<exists>n. parents_end icons n par" ..
    with False eq show ?thesis by auto
  next
    case True
    let ?pi = "icons_get icons (the par)"
    let ?als = "dict_update als (get_aliases ?pi)"
    let ?icons = "if attached then store_aliases icons name ?als else icons"
    from True eq have rec: "f name attached ?icons ?als (parent ?pi) = Some r"
      by (simp add: Let_def)
    note ih = IH [OF rec]
    from ih obtain n where "parents_end ?icons n (parent ?pi)" by blast
    then have "parents_end icons n (parent ?pi)"
      by (simp add: parents_end_store split: if_splits)
    then have "parents_end icons (Suc n) par" by simp
    then have ends: "\<exists>n. parents_end icons n par" ..
    have keys: "fst ` set als \<subseteq> fst ` set (snd r)"
      using ih by (auto simp: keys_dict_update)
    have tbl: "fst r = (if attached then store_aliases icons name (snd r) else icons)"
    proof (cases "truthy (parent ?pi)")
      case True
      with ih show ?thesis by (simp add: store_store)
    next
      case False
      with ih have "r = (?icons, ?als)" by simp
      then show ?thesis by simp
    qed
    from True ends keys tbl show ?thesis by simp
  qed
qed

lemma flatten_loop_parent_keys:
  assumes "flatten_loop name attached icons als par = Some r" and "truthy par"
  shows "fst ` set (get_aliases (icons_get icons (the par))) \<subseteq> fst ` set (snd r)"
proof -
  let ?pi = "icons_get icons (the par)"
  let ?als = "dict_update als (get_aliases ?pi)"
  let ?icons = "if attached then store_aliases icons name ?als else icons"
  from assms have "flatten_loop name attached ?icons ?als (parent ?pi) = Some r"
    by (subst (asm) flatten_loop.simps) (simp add: Let_def)
  from flatten_loop_result [OF this] have "fst ` set ?als \<subseteq> fst ` set (snd r)" by simp
  then show ?thesis by (auto simp: keys_dict_update)
qed

text \<open>
  A walk that ends does not come by the icon it started from, so the updates of the
  icon's own dictionary are not read back: the loop computes the flattening of the
  unchanged table.
\<close>

lemma visits_before_end:
  "visits icons n par x \<Longrightarrow> parents_end icons n par \<Longrightarrow>
     \<exists>k<n. parents_end icons k (parent (icons_get icons x))"
proof (induction n arbitrary: par)
  case 0
  then show ?case by simp
next
  case (Suc n)
  from Suc.prems(1) have t: "truthy par" by simp
  with Suc.prems(2) have pe: "parents_end icons n (parent (icons_get icons (the par)))" by simp
  show ?case
  proof (cases "the par = x")
    case True
    with pe have "parents_end icons n (parent (icons_get icons x))" by simp
    then show ?thesis by blast
  next
    case False
    with Suc.prems(1) have "visits icons n (parent (icons_get icons (the par))) x" by simp
    from Suc.IH [OF this pe] obtain k where "k < n"
      and "parents_end icons k (parent (icons_get icons x))" by blast
    then have "k < Suc n \<and> parents_end icons k (parent (icons_get icons x))" by simp
    then show ?thesis by blast
  qed
qed

lemma visits_within_end:
  "parents_end icons k par \<Longrightarrow> visits icons n par x \<Longrightarrow> visits icons k par x"
proof (induction k arbitrary: n par)
  case 0
  then show ?case by (cases n) simp_all
next
  case (Suc k)
  from Suc.prems(2) obtain m where n: "n = Suc m" by (cases n) simp_all
  with Suc.prems(2) have t: "truthy par" by simp
  show ?case
  proof (cases "the par = x")
    case True
    with t show ?thesis by simp
  next
    case False
    with Suc.prems(2) n have v: "visits icons m (parent (icons_get icons (the par))) x" by simp
    from Suc.prems(1) t have "parents_end icons k (parent (icons_get icons (the par)))" by simp
    from Suc.IH [OF this v] t show ?thesis by simp
  qed
qed

lemma never_visits_itself:
  "parents_end icons n (parent (icons_get icons x)) \<Longrightarrow>
     \<not> visits icons n (parent (icons_get icons x)) x"
proof (induction n rule: less_induct)
  case (less n)
  show ?case
  proof
    assume v: "visits icons n (parent (icons_get icons x)) x"
    from visits_before_end [OF v less.prems] obtain k where k: "k < n"
      and pe: "parents_end icons k (parent (icons_get icons x))" by blast
    from visits_within_end [OF pe v] have "visits icons k (parent (icons_get icons x)) x" .
    with less.IH [OF k pe] show False by simp
  qed
qed

lemma visits_store: "visits (store_aliases icons name d) n par x = visits icons n par x"
  by (induction n arbitrary: par) (simp_all add: store_get_parent)

lemma chain_aliases_store:
  "\<not> visits icons n par name \<Longrightarrow>
     chain_aliases (store_aliases icons name d) n als par = chain_aliases icons n als par"
proof (induction n arbitrary: als par)
  case 0
  then show ?case by simp
next
  case (Suc n)
  show ?case
  proof (cases "truthy par")
    case False
    then show ?thesis by simp
  next
    case True
    with Suc.prems have ne: "the par \<noteq> name"
      and nv: "\<not> visits icons n (parent (icons_get icons (the par))) name" by simp_all
    from ne have g: "icons_get (store_aliases icons name d) (the par) = icons_get icons (the par)"
      by (rule store_get_other)
    from True g Suc.IH [OF nv] show ?thesis by (simp add: Let_def)
  qed
qed

lemma flatten_loop_value:
  "parents_end icons n par \<Longrightarrow> (attached \<longrightarrow> \<not> visits icons n par name) \<Longrightarrow>
     \<exists>icons'. flatten_loop name attached icons als par =
       Some (icons', chain_aliases icons n als par)"
proof (induction n arbitrary: icons als par)
  case 0
  then show ?case by (subst flatten_loop.simps) simp
next
  case (Suc n)
  show ?case
  proof (cases "truthy par")
    case False
    then show ?thesis by (subst flatten_loop.simps) simp
  next
    case True
    let ?pi = "icons_get icons (the par)"
    let ?als = "dict_update als (get_aliases ?pi)"
    let ?icons = "if attached then store_aliases icons name ?als else icons"
    from True Suc.prems(1) have "parents_end icons n (parent ?pi)" by simp
    then have pe: "parents_end ?icons n (parent ?pi)" by (simp add: parents_end_store)
    from True Suc.prems(2) have nv: "attached \<longrightarrow> \<not> visits icons n (parent ?pi) name" by simp
    then have nv': "attached \<longrightarrow> \<not> visits ?icons n (parent ?pi) name"
      by (simp add: visits_store)
    from Suc.IH [OF pe nv'] obtain icons' where
      "flatten_loop name attached ?icons ?als (parent ?pi) =
         Some (icons', chain_aliases ?icons n ?als (parent ?pi))" by blast
    moreover have "chain_aliases ?icons n ?als (parent ?pi) = chain_aliases icons n ?als (parent ?pi)"
      using nv by (simp add: chain_aliases_store)
    ultimately have "flatten_loop name attached ?icons ?als (parent ?pi) =
         Some (icons', chain_aliases icons n ?als (parent ?pi))" by simp
    with True have "flatten_loop name attached icons als par =
        Some (icons', chain_aliases icons (Suc n) als par)"
      by (subst flatten_loop.simps) (simp add: Let_def)
    then show ?thesis ..
  qed
qed

lemma flatten_aliases_value:
  assumes "parents_end icons n (parent (icons_get icons name))"
  shows "\<exists>icons'. flatten_aliases icons name =
     Some (icons', chain_aliases icons n (get_aliases (icons_get icons name))
                     (parent (icons_get icons name)))"
  unfolding flatten_aliases_def Let_def
  using flatten_loop_value [OF assms] never_visits_itself [OF assms] by blast

text \<open>The synthetic cycle of three icons: A has parent B, B has parent C, C has parent A.\<close>

lemma cycle_never_ends:
  "\<not> chain_ends cycle_icons n (icons_get cycle_icons ''A'') \<and>
   \<not> chain_ends cycle_icons n (icons_get cycle_icons ''B'') \<and>
   \<not> chain_ends cycle_icons n (icons_get cycle_icons ''C'')"
  by (induction n) (simp_all add: cycle_icons_def icons_get_def empty_entry_def)

lemma cycle_parents_never_end:
  "\<not> parents_end cycle_icons n (Some ''A'') \<and> \<not> parents_end cycle_icons n (Some ''B'') \<and>
   \<not> parents_end cycle_icons n (Some ''C'')"
  by (induction n) (simp_all add: cycle_icons_def icons_get_def empty_entry_def)


section \<open>Facts about the index build\<close>

lemma index_icons_keys:
  "index_icons pfx license names icons tb count = Some (icons', tb', count') \<Longrightarrow>
     map icon_key (icons_tbl tb') = map icon_key (icons_tbl tb) @ map (key_of pfx) names \<and>
     map fts_key (icons_fts tb') = map fts_key (icons_fts tb) @ map (key_of pfx) names \<and>
     count' = count + length names"
proof (induction names arbitrary: icons tb count)
  case Nil
  then show ?case by simp
next
  case (Cons name names)
  from Cons.prems obtain icons1 als where
    fl: "flatten_aliases icons name = Some (icons1, als)"
    by (cases "flatten_aliases icons name") auto
  let ?tb = "insert_icon tb pfx name (join '' '' (map fst als)) license"
  from Cons.prems fl have "index_icons pfx license names icons1 ?tb (count + 1) =
      Some (icons', tb', count')"
    by (simp add: Let_def)
  from Cons.IH [OF this] show ?case
    by (simp add: insert_icon_def Let_def icon_key_def fts_key_def key_of_def)
qed

lemma rows_inv_mono: "rows_inv P tb \<Longrightarrow> P \<subseteq> Q \<Longrightarrow> rows_inv Q tb"
  unfolding rows_inv_def by blast

lemma rows_inv_cleared: "rows_inv {} cleared"
  by (simp add: rows_inv_def cleared_def)

lemma inj_key_of: "inj (key_of p)"
  by (rule injI) (simp add: key_of_def)

lemma rows_inv_step:
  assumes inv: "rows_inv P tb" and p: "p \<notin> P" and d: "distinct names"
    and i: "map icon_key (icons_tbl tb') = map icon_key (icons_tbl tb) @ map (key_of p) names"
    and f: "map fts_key (icons_fts tb') = map fts_key (icons_fts tb) @ map (key_of p) names"
  shows "rows_inv (insert p P) tb'"
proof -
  let ?old = "map icon_key (icons_tbl tb)"
  let ?new = "map (key_of p) names"
  from inv have eq: "?old = map fts_key (icons_fts tb)" and dold: "distinct ?old"
    and pre: "\<forall>k\<in>set ?old. \<exists>q n. k = key_of q n \<and> q \<in> P"
    unfolding rows_inv_def by blast+
  have dnew: "distinct ?new"
    using d by (simp add: distinct_map inj_on_subset [OF inj_key_of])
  have disj: "set ?old \<inter> set ?new = {}"
  proof (rule ccontr)
    assume "set ?old \<inter> set ?new \<noteq> {}"
    then obtain k where k1: "k \<in> set ?old" and k2: "k \<in> set ?new" by blast
    from pre k1 obtain q n where "k = key_of q n" and q: "q \<in> P" by blast
    moreover from k2 obtain m where "k = key_of p m" by auto
    ultimately have "q = p" by (simp add: key_of_def)
    with q p show False by simp
  qed
  have 1: "map icon_key (icons_tbl tb') = map fts_key (icons_fts tb')"
    using i f eq by simp
  have 2: "distinct (map icon_key (icons_tbl tb'))"
    using i dold dnew disj by simp
  have 3: "\<forall>k\<in>set (map icon_key (icons_tbl tb')). \<exists>q n. k = key_of q n \<and> q \<in> insert p P"
  proof
    fix k assume "k \<in> set (map icon_key (icons_tbl tb'))"
    with i have "k \<in> set ?old \<or> k \<in> set ?new" by auto
    then show "\<exists>q n. k = key_of q n \<and> q \<in> insert p P"
    proof
      assume "k \<in> set ?old"
      with pre show ?thesis by blast
    next
      assume "k \<in> set ?new"
      then obtain m where "k = key_of p m" by auto
      then show ?thesis by blast
    qed
  qed
  from 1 2 3 show ?thesis unfolding rows_inv_def by blast
qed

lemma http_get_wf:
  assumes "http_get reply cache_file = (res, cache_file')"
    and "wf_reply ok reply" and "wf_cache_file ok cache_file"
  shows "wf_cache_file ok cache_file' \<and> (\<forall>d. res = Inr d \<longrightarrow> ok d)"
  using assms
  by (cases reply; cases cache_file)
    (auto simp: http_get_def read_cache_first_def stale_fallback_def split: cache_entry.splits)


lemma index_collections_inv:
  assumes "index_collections net ps st = Some (x, st')"
    and "distinct ps"
    and "\<forall>p. wf_reply wf_doc (net p)"
    and "\<forall>p. wf_cache_file wf_doc (doc_cache st p)"
    and "rows_inv P (tbls st)"
    and "P \<inter> set ps = {}"
  shows "rows_inv (P \<union> set ps) (tbls st') \<and>
         total_icons st' + length (icons_tbl (tbls st)) =
           total_icons st + length (icons_tbl (tbls st'))"
  using assms
proof (induction ps arbitrary: st P)
  case Nil
  then show ?case by simp
next
  case (Cons p ps)
  obtain res cf where h: "http_get (net p) (doc_cache st p) = (res, cf)"
    by (cases "http_get (net p) (doc_cache st p)")
  from Cons.prems(3,4) have "wf_reply wf_doc (net p)" and "wf_cache_file wf_doc (doc_cache st p)"
    by simp_all
  from http_get_wf [OF h this] have wcf: "wf_cache_file wf_doc cf"
    and wres: "\<And>d. res = Inr d \<Longrightarrow> wf_doc d" by simp_all
  let ?st1 = "st\<lparr>doc_cache := (doc_cache st)(p := cf)\<rparr>"
  have wc1: "\<forall>q. wf_cache_file wf_doc (doc_cache ?st1 q)"
    using Cons.prems(4) wcf by simp
  from Cons.prems(2) have dps: "distinct ps" and pnot: "p \<notin> set ps" by simp_all
  from Cons.prems(6) have pP: "p \<notin> P" and disj: "P \<inter> set ps = {}" by auto
  show ?case
  proof (cases res)
    case (Inl e)
    show ?thesis
    proof (cases "soft_error e")
      case True
      let ?st2 = "?st1\<lparr>errors := errors ?st1 @ [(p, e)]\<rparr>"
      from Cons.prems(1) h Inl True have rec: "index_collections net ps ?st2 = Some (x, st')"
        by (simp add: Let_def)
      have "\<forall>q. wf_cache_file wf_doc (doc_cache ?st2 q)" using wc1 by simp
      moreover have "rows_inv P (tbls ?st2)" using Cons.prems(5) by simp
      ultimately have "rows_inv (P \<union> set ps) (tbls st') \<and>
         total_icons st' + length (icons_tbl (tbls ?st2)) =
           total_icons ?st2 + length (icons_tbl (tbls st'))"
        using Cons.IH [OF rec dps Cons.prems(3) _ _ disj] by blast
      then have "rows_inv (P \<union> set ps) (tbls st')"
        and t: "total_icons st' + length (icons_tbl (tbls st)) =
           total_icons st + length (icons_tbl (tbls st'))" by simp_all
      from rows_inv_mono [OF this(1), of "P \<union> set (p # ps)"]
      have "rows_inv (P \<union> set (p # ps)) (tbls st')" by auto
      with t show ?thesis by simp
    next
      case False
      from Cons.prems(1) h Inl False have "st' = ?st1" by (simp add: Let_def)
      moreover from rows_inv_mono [OF Cons.prems(5), of "P \<union> set (p # ps)"]
      have "rows_inv (P \<union> set (p # ps)) (tbls st)" by auto
      ultimately show ?thesis by simp
    qed
  next
    case (Inr data)
    let ?icons = "get_icons data"
    from wres [OF Inr] have dn: "distinct (map fst ?icons)" by (simp add: wf_doc_def)
    from Cons.prems(1) h Inr obtain icons' tb count where
      ii: "index_icons p (get_license_title data) (map fst ?icons) ?icons (tbls st) 0 =
        Some (icons', tb, count)"
      by (cases "index_icons p (get_license_title data) (map fst ?icons) ?icons (tbls st) 0")
        (auto simp: Let_def)
    let ?st2 = "?st1\<lparr>tbls := tb, total_icons := total_icons ?st1 + count\<rparr>"
    from Cons.prems(1) h Inr ii have rec: "index_collections net ps ?st2 = Some (x, st')"
      by (simp add: Let_def)
    from index_icons_keys [OF ii]
    have ki: "map icon_key (icons_tbl tb) =
        map icon_key (icons_tbl (tbls st)) @ map (key_of p) (map fst ?icons)"
      and kf: "map fts_key (icons_fts tb) =
        map fts_key (icons_fts (tbls st)) @ map (key_of p) (map fst ?icons)"
      and cnt: "count = length ?icons" by simp_all
    from rows_inv_step [OF Cons.prems(5) pP dn ki kf] have inv2: "rows_inv (insert p P) (tbls ?st2)"
      by simp
    have wc2: "\<forall>q. wf_cache_file wf_doc (doc_cache ?st2 q)" using wc1 by simp
    have disj2: "insert p P \<inter> set ps = {}" using disj pnot by auto
    from Cons.IH [OF rec dps Cons.prems(3) wc2 inv2 disj2]
    have r1: "rows_inv (insert p P \<union> set ps) (tbls st')"
      and r2: "total_icons st' + length (icons_tbl (tbls ?st2)) =
           total_icons ?st2 + length (icons_tbl (tbls st'))" by simp_all
    from ki have "length (map icon_key (icons_tbl tb)) =
        length (map icon_key (icons_tbl (tbls st)) @ map (key_of p) (map fst ?icons))"
      by (rule arg_cong)
    then have len: "length (icons_tbl tb) = length (icons_tbl (tbls st)) + length ?icons"
      by simp
    from r1 have "rows_inv (P \<union> set (p # ps)) (tbls st')" by simp
    moreover from r2 len cnt have "total_icons st' + length (icons_tbl (tbls st)) =
           total_icons st + length (icons_tbl (tbls st'))" by simp
    ultimately show ?thesis by blast
  qed
qed


lemma bundled_index_collections_inv:
  assumes "bundled_index_collections net pfxs ps tb tot = Some (tb', tot')"
    and "distinct ps"
    and "\<forall>p. wf_reply wf_doc (net p)"
    and "rows_inv P tb"
    and "P \<inter> set ps = {}"
  shows "rows_inv (P \<union> set ps) tb' \<and>
         tot' + length (icons_tbl tb) = tot + length (icons_tbl tb')"
  using assms
proof (induction ps arbitrary: tb tot P)
  case Nil
  then show ?case by simp
next
  case (Cons p ps)
  from Cons.prems(2) have dps: "distinct ps" and pnot: "p \<notin> set ps" by simp_all
  from Cons.prems(5) have pP: "p \<notin> P" and disj: "P \<inter> set ps = {}" by auto
  have skip: "rows_inv (P \<union> set (p # ps)) tb' \<and>
         tot' + length (icons_tbl tb) = tot + length (icons_tbl tb')"
    if rec: "bundled_index_collections net pfxs ps tb tot = Some (tb', tot')"
  proof -
    from Cons.IH [OF rec dps Cons.prems(3) Cons.prems(4) disj]
    have "rows_inv (P \<union> set ps) tb'"
      and t: "tot' + length (icons_tbl tb) = tot + length (icons_tbl tb')" by simp_all
    from rows_inv_mono [OF this(1), of "P \<union> set (p # ps)"]
    have "rows_inv (P \<union> set (p # ps)) tb'" by auto
    with t show ?thesis by simp
  qed
  show ?case
  proof (cases "list_truthy pfxs \<and> p \<notin> set (the pfxs)")
    case True
    with Cons.prems(1) have "bundled_index_collections net pfxs ps tb tot = Some (tb', tot')"
      by simp
    then show ?thesis by (rule skip)
  next
    case False
    show ?thesis
    proof (cases "bundled_http_get (net p)")
      case (Inl e)
      with Cons.prems(1) False
      have "bundled_index_collections net pfxs ps tb tot = Some (tb', tot')"
        by simp
      then show ?thesis by (rule skip)
    next
      case (Inr data)
      then have "net p = NetOk data"
        by (cases "net p") (simp_all add: bundled_http_get_def)
      with Cons.prems(3) [rule_format, of p] have "wf_doc data" by simp
      let ?icons = "get_icons data"
      from \<open>wf_doc data\<close> have dn: "distinct (map fst ?icons)" by (simp add: wf_doc_def)
      from Cons.prems(1) False Inr obtain icons' tb1 count where
        ii: "index_icons p (get_license_title data) (map fst ?icons) ?icons tb 0 =
          Some (icons', tb1, count)"
        by (cases "index_icons p (get_license_title data) (map fst ?icons) ?icons tb 0")
          (auto simp: Let_def)
      from Cons.prems(1) False Inr ii
      have rec: "bundled_index_collections net pfxs ps tb1 (tot + count) = Some (tb', tot')"
        by (simp add: Let_def)
      from index_icons_keys [OF ii]
      have ki: "map icon_key (icons_tbl tb1) =
          map icon_key (icons_tbl tb) @ map (key_of p) (map fst ?icons)"
        and kf: "map fts_key (icons_fts tb1) =
          map fts_key (icons_fts tb) @ map (key_of p) (map fst ?icons)"
        and cnt: "count = length ?icons" by simp_all
      from rows_inv_step [OF Cons.prems(4) pP dn ki kf] have inv2: "rows_inv (insert p P) tb1" .
      have disj2: "insert p P \<inter> set ps = {}" using disj pnot by auto
      from Cons.IH [OF rec dps Cons.prems(3) inv2 disj2]
      have r1: "rows_inv (insert p P \<union> set ps) tb'"
        and r2: "tot' + length (icons_tbl tb1) = tot + count + length (icons_tbl tb')"
        by simp_all
      from ki have "length (map icon_key (icons_tbl tb1)) =
          length (map icon_key (icons_tbl tb) @ map (key_of p) (map fst ?icons))"
        by (rule arg_cong)
      then have len: "length (icons_tbl tb1) = length (icons_tbl tb) + length ?icons"
        by simp
      from r1 have "rows_inv (P \<union> set (p # ps)) tb'" by simp
      moreover from r2 len cnt
      have "tot' + length (icons_tbl tb) = tot + length (icons_tbl tb')" by simp
      ultimately show ?thesis by blast
    qed
  qed
qed

lemma length_filter_key:
  "length (filter (\<lambda>x. f x = k) xs) = length (filter (\<lambda>y. y = k) (map f xs))"
  by (induction xs) simp_all

lemma distinct_filter_one:
  "distinct ys \<Longrightarrow> k \<in> set ys \<Longrightarrow> length (filter (\<lambda>y. y = k) ys) = 1"
  by (induction ys) (auto simp: filter_empty_conv)

lemma rows_inv_agree:
  assumes "rows_inv P tb"
  shows "tables_agree tb"
proof -
  let ?ks = "map icon_key (icons_tbl tb)"
  from assms have eq: "?ks = map fts_key (icons_fts tb)" and d: "distinct ?ks"
    and pre: "\<forall>k\<in>set ?ks. \<exists>q n. k = key_of q n \<and> q \<in> P"
    unfolding rows_inv_def by blast+
  from eq have "length ?ks = length (map fts_key (icons_fts tb))" by (rule arg_cong)
  then have len: "length (icons_tbl tb) = length (icons_fts tb)" by simp
  have one_i: "length (icons_matching tb k) = 1" if "k \<in> set ?ks" for k
  proof -
    have "length (icons_matching tb k) = length (filter (\<lambda>y. y = k) ?ks)"
      unfolding icons_matching_def by (rule length_filter_key)
    also have "\<dots> = 1" using d that by (rule distinct_filter_one)
    finally show ?thesis .
  qed
  have one_f: "length (fts_matching tb k) = 1" if "k \<in> set ?ks" for k
  proof -
    have "length (fts_matching tb k) = length (filter (\<lambda>y. y = k) (map fts_key (icons_fts tb)))"
      unfolding fts_matching_def by (rule length_filter_key)
    also have "\<dots> = length (filter (\<lambda>y. y = k) ?ks)" by (simp only: eq)
    also have "\<dots> = 1" using d that by (rule distinct_filter_one)
    finally show ?thesis .
  qed
  have a: "row_full_id r = row_prefix r @ '':'' @ row_name r \<and>
           length (icons_matching tb (icon_key r)) = 1 \<and>
           length (fts_matching tb (icon_key r)) = 1" if r: "r \<in> set (icons_tbl tb)" for r
  proof -
    from r have k: "icon_key r \<in> set ?ks" by simp
    with pre obtain q n where "icon_key r = key_of q n" by blast
    then have "row_full_id r = row_prefix r @ '':'' @ row_name r"
      by (simp add: icon_key_def key_of_def)
    with one_i [OF k] one_f [OF k] show ?thesis by simp
  qed
  have b: "length (icons_matching tb (fts_key r)) = 1 \<and> length (fts_matching tb (fts_key r)) = 1"
    if r: "r \<in> set (icons_fts tb)" for r
  proof -
    from r have "fts_key r \<in> set (map fts_key (icons_fts tb))" by simp
    with eq have k: "fts_key r \<in> set ?ks" by simp
    with one_i [OF k] one_f [OF k] show ?thesis by simp
  qed
  show ?thesis
    by (simp add: tables_agree_def list_all_iff len a b)
qed

text \<open>
  A collection whose fetch fails without a cache file ends the loop of \<open>build_index.py\<close>
  with the \<open>RuntimeError\<close>, whatever collections follow; with an unreadable cache file
  the failure is a soft error and the loop goes on.
\<close>

lemma index_collections_fetch_failure:
  "net_failed (net p) \<Longrightarrow> doc_cache st p = None \<Longrightarrow>
     index_collections net (p # rest) st =
       Some (Some RuntimeError, st\<lparr>doc_cache := (doc_cache st)(p := None)\<rparr>)"
  by (cases "net p")
    (simp_all add: http_get_def read_cache_first_def stale_fallback_def soft_error_def)

lemma index_collections_corrupt_cache:
  "net_failed (net p) \<Longrightarrow> doc_cache st p = Some Corrupt \<Longrightarrow>
     index_collections net (p # rest) st =
       index_collections net rest
         (st\<lparr>doc_cache := (doc_cache st)(p := Some Corrupt),
             errors := errors st @ [(p, JSONDecodeError)]\<rparr>)"
  by (cases "net p")
    (simp_all add: http_get_def read_cache_first_def stale_fallback_def soft_error_def)

lemma ensure_data_dir_undefined: "read_global ''ensure_data_dir'' = Inl NameError"
  by code_simp



section \<open>The safety gate and the assembled markup\<close>

text \<open>
  C6, as the claim states it, fails: a body with an \<open>href\<close> attribute that points at an
  \<open>http\<close> resource and with an \<open>onload\<close> attribute, written with whitespace at the
  equals sign as XML allows, passes the gate, and \<open>get_svg\<close> prints the SVG with this
  body.
\<close>

theorem spaced_attribute_counterexample:
  "has_attribute ''href'' ''http'' spaced_body \<and>
   has_attribute ''onload'' [] spaced_body \<and>
   sanitize_svg spaced_body \<and>
   get_svg spaced_doc ''mdi'' ''link'' 24 None =
     Some (build_svg spaced_body 24 24 24 None # attribution spaced_doc ''mdi'' ''link'')"
  by code_simp



text \<open>
  C7, as the claim states it, fails at a colour that is supplied but empty: the guard
  \<open>if color and color != "currentColor"\<close> treats the empty string like no colour, so
  the markup is the one without a colour and holds no grouping element.
\<close>

theorem svg_empty_color_counterexample:
  \<open>Some [] \<noteq> (None :: string option) \<and> Some [] \<noteq> Some ''currentColor'' \<and>
   build_svg ''<path d="M10 10"/>'' 24 24 32 (Some []) =
     build_svg ''<path d="M10 10"/>'' 24 24 32 None \<and>
   \<not> contains ''<g'' (build_svg ''<path d="M10 10"/>'' 24 24 32 (Some []))\<close>
  by code_simp

text \<open>
  C7, amended. For an accepted body (not empty, passed by the gate) \<open>get_svg\<close> prints
  the markup first. The markup is the root element with the fixed namespace, the
  \<open>viewBox\<close> of the width and height, \<open>width\<close> and \<open>height\<close> both the size, then the
  body verbatim and the closing tag, one per line. The body is wrapped in
  \<open><g fill="color">\<close> exactly when a colour is supplied that is neither empty nor
  \<open>currentColor\<close>. The markup is a function of body, width, height, size and colour.
\<close>

theorem svg_assembly:
  \<open>resolve_aliases data name = Some icon \<and> body icon = Some b \<and> b \<noteq> [] \<and> sanitize_svg b \<longrightarrow>
   get_svg data pfx name sz color =
     Some (build_svg b (case width icon of None \<Rightarrow> sz | Some w \<Rightarrow> w)
             (case height icon of None \<Rightarrow> sz | Some h \<Rightarrow> h) sz color #
           attribution data pfx name) \<and>
   (\<forall>w h. build_svg b w h sz color =
     (if color \<noteq> None \<and> color \<noteq> Some [] \<and> color \<noteq> Some ''currentColor''
      then ''<svg xmlns="http://www.w3.org/2000/svg"'' @ ''\<newline>'' @
           ''viewBox="0 0 '' @ str_int w @ '' '' @ str_int h @ ''"'' @ ''\<newline>'' @
           ''width="'' @ str_int sz @ ''" height="'' @ str_int sz @ ''">'' @ ''\<newline>'' @
           ''<g fill="'' @ the color @ ''">'' @ ''\<newline>'' @ b @ ''\<newline>'' @
           ''</g>'' @ ''\<newline>'' @ ''</svg>''
      else ''<svg xmlns="http://www.w3.org/2000/svg"'' @ ''\<newline>'' @
           ''viewBox="0 0 '' @ str_int w @ '' '' @ str_int h @ ''"'' @ ''\<newline>'' @
           ''width="'' @ str_int sz @ ''" height="'' @ str_int sz @ ''">'' @ ''\<newline>'' @
           b @ ''\<newline>'' @ ''</svg>''))\<close>
proof (intro impI conjI allI)
  assume a: "resolve_aliases data name = Some icon \<and> body icon = Some b \<and> b \<noteq> [] \<and>
    sanitize_svg b"
  then have "get_svg_print data pfx name icon sz color =
     build_svg b (case width icon of None \<Rightarrow> sz | Some w \<Rightarrow> w)
       (case height icon of None \<Rightarrow> sz | Some h \<Rightarrow> h) sz color # attribution data pfx name"
    by (simp add: get_svg_print_def is_empty_body Let_def)
  with a show "get_svg data pfx name sz color =
     Some (build_svg b (case width icon of None \<Rightarrow> sz | Some w \<Rightarrow> w)
             (case height icon of None \<Rightarrow> sz | Some h \<Rightarrow> h) sz color #
           attribution data pfx name)"
    by (simp add: get_svg_def)
next
  fix w h
  have t: "truthy color \<longleftrightarrow> color \<noteq> None \<and> color \<noteq> Some []"
    by (cases color) simp_all
  show \<open>build_svg b w h sz color =
     (if color \<noteq> None \<and> color \<noteq> Some [] \<and> color \<noteq> Some ''currentColor''
      then ''<svg xmlns="http://www.w3.org/2000/svg"'' @ ''\<newline>'' @
           ''viewBox="0 0 '' @ str_int w @ '' '' @ str_int h @ ''"'' @ ''\<newline>'' @
           ''width="'' @ str_int sz @ ''" height="'' @ str_int sz @ ''">'' @ ''\<newline>'' @
           ''<g fill="'' @ the color @ ''">'' @ ''\<newline>'' @ b @ ''\<newline>'' @
           ''</g>'' @ ''\<newline>'' @ ''</svg>''
      else ''<svg xmlns="http://www.w3.org/2000/svg"'' @ ''\<newline>'' @
           ''viewBox="0 0 '' @ str_int w @ '' '' @ str_int h @ ''"'' @ ''\<newline>'' @
           ''width="'' @ str_int sz @ ''" height="'' @ str_int sz @ ''">'' @ ''\<newline>'' @
           b @ ''\<newline>'' @ ''</svg>'')\<close>
    unfolding build_svg_def Let_def t
    by (simp add: svg_open_def view_box_def size_attrs_def g_open_def)
qed

text \<open>
  The specification's example: body \<open><path d='M10 10'/>\<close>, width and height 24, size
  32, no colour. The markup is followed by the two attribution comments.
\<close>

theorem svg_assembly_witness:
  \<open>resolve_aliases dot_doc ''dot'' =
     Some (empty_entry\<lparr>body := Some dot_body, width := Some 24, height := Some 24\<rparr>) \<and>
   dot_body \<noteq> [] \<and> sanitize_svg dot_body \<and>
   get_svg dot_doc ''mdi'' ''dot'' 32 None =
     Some [''<svg xmlns="http://www.w3.org/2000/svg"'' @ ''\<newline>'' @
           ''viewBox="0 0 24 24"'' @ ''\<newline>'' @
           ''width="32" height="32">'' @ ''\<newline>'' @
           dot_body @ ''\<newline>'' @ ''</svg>'',
           ''\<newline><!-- Icon: mdi:dot -->'', ''<!-- License: MIT -->'']\<close>
proof -
  have r: "resolve_aliases dot_doc ''dot'' =
      Some (empty_entry\<lparr>body := Some dot_body, width := Some 24, height := Some 24\<rparr>)"
    by code_simp
  have b: "body (empty_entry\<lparr>body := Some dot_body, width := Some 24, height := Some 24\<rparr>
      :: unit icon_entry) = Some dot_body"
    by simp
  have n: "dot_body \<noteq> []"
    by (simp add: dot_body_def)
  have s: "sanitize_svg dot_body"
    by code_simp
  have n24: "str_int 24 = ''24''" and n32: "str_int 32 = ''32''"
    by code_simp+
  have at: "attribution dot_doc ''mdi'' ''dot'' =
      [''\<newline><!-- Icon: mdi:dot -->'', ''<!-- License: MIT -->'']"
    by (simp add: attribution_def dot_doc_def get_license_title_def)
  show ?thesis
    using r b n s svg_assembly [of dot_doc "''dot''"
        "empty_entry\<lparr>body := Some dot_body, width := Some 24, height := Some 24\<rparr>"
        dot_body "''mdi''" 32 None]
    by (simp add: n24 n32 at empty_entry_def)
qed


section \<open>The match expression\<close>




section \<open>Fetching\<close>

text \<open>
  C5. When the cache holds a document for the URL, \<open>http_get\<close> returns that document,
  whatever the network does (also when the retrieval fails with a connection error or a
  malformed body), and leaves the cache as it is. \<open>http_get\<close> fails only when the
  cache holds no document to return and, unless the cache file cannot be decoded, the
  network delivered none either. It fails with the \<open>RuntimeError\<close> ``Failed to fetch''
  (the specification's FetchError) exactly when the network retrieval failed with a
  connection error, an HTTP error or a malformed body and there is no cache file at all.
\<close>

theorem fetch_uses_cache:
  "(cache_file = Some (Cached d) \<longrightarrow> http_get reply cache_file = (Inr d, cache_file)) \<and>
   (\<forall>e. fst (http_get reply cache_file) = Inl e \<longrightarrow>
      (\<forall>d'. cache_file \<noteq> Some (Cached d')) \<and>
      ((\<forall>d'. reply \<noteq> NetOk d') \<or> cache_file = Some Undecodable)) \<and>
   (fst (http_get reply cache_file) = Inl RuntimeError \<longleftrightarrow> net_failed reply \<and> cache_file = None)"
proof (intro conjI allI impI)
  assume "cache_file = Some (Cached d)"
  then show "http_get reply cache_file = (Inr d, cache_file)"
    by (simp add: http_get_def read_cache_first_def)
next
  fix e d'
  assume "fst (http_get reply cache_file) = Inl e"
  then show "cache_file \<noteq> Some (Cached d')"
    by (auto simp: http_get_def read_cache_first_def)
next
  fix e
  assume "fst (http_get reply cache_file) = Inl e"
  then show "(\<forall>d'. reply \<noteq> NetOk d') \<or> cache_file = Some Undecodable"
    by (cases reply; cases cache_file)
      (auto simp: http_get_def read_cache_first_def split: cache_entry.splits)
next
  show "fst (http_get reply cache_file) = Inl RuntimeError \<longleftrightarrow> net_failed reply \<and> cache_file = None"
    by (cases reply; cases cache_file)
      (auto simp: http_get_def read_cache_first_def stale_fallback_def
        split: cache_entry.splits)
qed

theorem fetch_uses_cache_witness:
  "net_failed (NetError :: nat net_reply) \<and>
   http_get NetError (Some (Cached (7::nat))) = (Inr 7, Some (Cached 7)) \<and>
   net_failed (NetMalformed :: nat net_reply) \<and>
   fst (http_get (NetMalformed :: nat net_reply) None) = Inl RuntimeError"
  using fetch_uses_cache [of "Some (Cached (7::nat))" 7 NetError]
    fetch_uses_cache [of "None :: nat cache_entry option" 7 NetMalformed]
  by simp

text \<open>
  The failures that are not the \<open>RuntimeError\<close>: a cache file that is not JSON, with
  the network retrieval failed, gives the decoder's error of the second read; a cache
  file that cannot be decoded gives its error at the first read, whatever the network
  does; without a cached document, a body that is not UTF-8 and a broken connection leave
  the function unwrapped.
\<close>

lemma http_get_corrupt:
  "net_failed reply \<Longrightarrow> http_get reply (Some Corrupt) = (Inl JSONDecodeError, Some Corrupt)"
  by (cases reply) (simp_all add: http_get_def read_cache_first_def stale_fallback_def)

lemma http_get_undecodable:
  "http_get reply (Some Undecodable) = (Inl UnicodeDecodeError, Some Undecodable)"
  by (simp add: http_get_def read_cache_first_def)

lemma http_get_escapes:
  "\<forall>d. cache_file \<noteq> Some (Cached d) \<Longrightarrow> cache_file \<noteq> Some Undecodable \<Longrightarrow>
     http_get NetNotUtf8 cache_file = (Inl UnicodeDecodeError, cache_file) \<and>
     http_get NetDropped cache_file = (Inl RemoteDisconnected, cache_file)"
  by (cases cache_file) (auto simp: http_get_def read_cache_first_def split: cache_entry.splits)


section \<open>Cycles in the parent references\<close>

text \<open>
  C1, as the claim states it, fails on the cycle of three icons: neither the resolution
  from A nor the flattening for A returns, so neither reports an error.
\<close>

theorem cycle_counterexample:
  "resolve_aliases \<lparr>doc_icons = Some cycle_icons, license_title = None, license_url = None\<rparr>
     ''A'' = None \<and>
   flatten_aliases cycle_icons ''A'' = None"
proof
  show "resolve_aliases \<lparr>doc_icons = Some cycle_icons, license_title = None, license_url = None\<rparr>
     ''A'' = None"
  proof (rule ccontr)
    assume "resolve_aliases \<lparr>doc_icons = Some cycle_icons, license_title = None,
      license_url = None\<rparr> ''A'' \<noteq> None"
    then obtain e where "resolve_loop cycle_icons (icons_get cycle_icons ''A'') = Some e"
      by (auto simp: resolve_aliases_def get_icons_def)
    from resolve_only_if [OF this] cycle_never_ends show False by blast
  qed
  have start: "flatten_aliases cycle_icons ''A'' =
      flatten_loop ''A'' False cycle_icons [] (Some ''B'')"
    by (simp add: flatten_aliases_def cycle_icons_def icons_get_def empty_entry_def
        get_aliases_def)
  show "flatten_aliases cycle_icons ''A'' = None"
  proof (rule ccontr)
    assume "flatten_aliases cycle_icons ''A'' \<noteq> None"
    with start obtain r where "flatten_loop ''A'' False cycle_icons [] (Some ''B'') = Some r"
      by auto
    from flatten_loop_result [OF this] cycle_parents_never_end show False by blast
  qed
qed

text \<open>
  C1, amended. Resolution returns exactly when the walk from the start name reaches an
  entry without a \<open>parent\<close> key after finitely many steps, and it then returns that
  entry, the one the walk has reached (\<open>resolve_steps\<close>); flattening returns exactly when
  the walk reaches an entry whose \<open>parent\<close> is absent or empty, and it then returns the
  icon's own aliases updated with those of each ancestor in turn (\<open>chain_aliases\<close>). On
  a chain that does not end, neither returns; the program has no bound, no visited set
  and no ResolutionError.
\<close>

theorem walk_returns_iff_chain_ends:
  "((\<exists>e. resolve_aliases data name = Some e) \<longleftrightarrow>
      (\<exists>n. chain_ends (get_icons data) n (icons_get (get_icons data) name))) \<and>
   (\<forall>n. chain_ends (get_icons data) n (icons_get (get_icons data) name) \<longrightarrow>
      resolve_aliases data name =
        Some (resolve_steps (get_icons data) n (icons_get (get_icons data) name)) \<and>
      parent (resolve_steps (get_icons data) n (icons_get (get_icons data) name)) = None) \<and>
   ((\<exists>r. flatten_aliases icons name = Some r) \<longleftrightarrow>
      (\<exists>n. parents_end icons n (parent (icons_get icons name)))) \<and>
   (\<forall>n. parents_end icons n (parent (icons_get icons name)) \<longrightarrow>
      (\<exists>icons'. flatten_aliases icons name =
         Some (icons', chain_aliases icons n (get_aliases (icons_get icons name))
                         (parent (icons_get icons name)))))"
proof (intro conjI allI impI)
  show "(\<exists>e. resolve_aliases data name = Some e) \<longleftrightarrow>
      (\<exists>n. chain_ends (get_icons data) n (icons_get (get_icons data) name))"
    unfolding resolve_aliases_def Let_def
    using resolve_only_if resolve_ends by blast
next
  fix n
  assume "chain_ends (get_icons data) n (icons_get (get_icons data) name)"
  from resolve_ends [OF this]
  show "resolve_aliases data name =
        Some (resolve_steps (get_icons data) n (icons_get (get_icons data) name))"
    and "parent (resolve_steps (get_icons data) n (icons_get (get_icons data) name)) = None"
    by (simp_all add: resolve_aliases_def Let_def)
next
  show "(\<exists>r. flatten_aliases icons name = Some r) \<longleftrightarrow>
      (\<exists>n. parents_end icons n (parent (icons_get icons name)))"
    unfolding flatten_aliases_def Let_def
    using flatten_loop_result flatten_ends by blast
next
  fix n
  assume "parents_end icons n (parent (icons_get icons name))"
  then show "\<exists>icons'. flatten_aliases icons name =
         Some (icons', chain_aliases icons n (get_aliases (icons_get icons name))
                         (parent (icons_get icons name)))"
    by (rule flatten_aliases_value)
qed

theorem walk_returns_iff_chain_ends_witness:
  "chain_ends family_icons 1 (icons_get family_icons ''home-alt'') \<and>
   parents_end family_icons 1 (parent (icons_get family_icons ''home-alt'')) \<and>
   resolve_aliases \<lparr>doc_icons = Some family_icons, license_title = None, license_url = None\<rparr>
     ''home-alt'' = Some (icons_get family_icons ''home'') \<and>
   body (icons_get family_icons ''home'') = Some ''<path/>'' \<and>
   (\<exists>icons'. flatten_aliases family_icons ''home-alt'' =
      Some (icons', [(''cottage'', ()), (''house'', ())]))"
proof -
  have c: "chain_ends family_icons 1 (icons_get family_icons ''home-alt'')"
    by code_simp
  have p: "parents_end family_icons 1 (parent (icons_get family_icons ''home-alt''))"
    by code_simp
  have g: "get_icons \<lparr>doc_icons = Some family_icons, license_title = None, license_url = None\<rparr>
      = family_icons"
    by (simp add: get_icons_def)
  have s: "resolve_steps family_icons 1 (icons_get family_icons ''home-alt'') =
      icons_get family_icons ''home''"
    by code_simp
  have b: "body (icons_get family_icons ''home'') = Some ''<path/>''"
    by code_simp
  have a: "chain_aliases family_icons 1 (get_aliases (icons_get family_icons ''home-alt''))
      (parent (icons_get family_icons ''home-alt'')) = [(''cottage'', ()), (''house'', ())]"
    by code_simp
  from walk_returns_iff_chain_ends
      [of "\<lparr>doc_icons = Some family_icons, license_title = None, license_url = None\<rparr>"
        "''home-alt''" family_icons]
  have r: "resolve_aliases
        \<lparr>doc_icons = Some family_icons, license_title = None, license_url = None\<rparr>
        ''home-alt'' = Some (resolve_steps family_icons 1 (icons_get family_icons ''home-alt''))"
    and f: "\<exists>icons'. flatten_aliases family_icons ''home-alt'' =
      Some (icons', chain_aliases family_icons 1
                      (get_aliases (icons_get family_icons ''home-alt''))
                      (parent (icons_get family_icons ''home-alt'')))"
    unfolding g using c p by blast+
  from r f show ?thesis unfolding s a using c p b by blast
qed


section \<open>The flattening updates the icon table\<close>

text \<open>
  C10, as the claim states it, fails for an icon without an \<open>aliases\<close> key of its own:
  \<open>home-bare\<close> has the parent \<open>home\<close>, which has an alias, and after its flattening
  the icon table is the same as before. The flattened aliases are in a fresh dictionary.
\<close>

theorem flatten_unchanged_counterexample:
  "parent (icons_get family_icons ''home-bare'') = Some ''home'' \<and>
   aliases (icons_get family_icons ''home'') = Some [(''house'', ())] \<and>
   flatten_aliases family_icons ''home-bare'' = Some (family_icons, [(''house'', ())])"
  by code_simp

text \<open>
  C10, amended. When the parent chain of the icon ends, the flattening returns and
  \<^item> if the icon has no \<open>aliases\<close> key, the icon table is unchanged;
  \<^item> if it has one, that dictionary is updated in place: afterwards the icon's entry in
    the table holds the flattened dictionary;
  \<^item> every other entry of the table is unchanged;
  \<^item> the flattened dictionary is the icon's own one updated with the aliases of each
    ancestor in turn, as the table had them before; it holds the icon's own alias keys
    and those of its parent.
\<close>

theorem flatten_updates_own_dictionary:
  "parents_end icons n (parent (icons_get icons name)) \<longrightarrow>
   (\<exists>icons' als. flatten_aliases icons name = Some (icons', als) \<and>
      (aliases (icons_get icons name) = None \<longrightarrow> icons' = icons) \<and>
      (aliases (icons_get icons name) \<noteq> None \<longrightarrow>
         icons' = store_aliases icons name als \<and> aliases (icons_get icons' name) = Some als) \<and>
      (\<forall>k. k \<noteq> name \<longrightarrow> icons_get icons' k = icons_get icons k) \<and>
      als = chain_aliases icons n (get_aliases (icons_get icons name))
              (parent (icons_get icons name)) \<and>
      fst ` set (get_aliases (icons_get icons name)) \<subseteq> fst ` set als \<and>
      (truthy (parent (icons_get icons name)) \<longrightarrow>
         fst ` set (get_aliases (icons_get icons (the (parent (icons_get icons name)))))
           \<subseteq> fst ` set als))"
proof
  let ?icon = "icons_get icons name"
  let ?att = "aliases ?icon \<noteq> None"
  assume ends: "parents_end icons n (parent ?icon)"
  from flatten_ends [OF this] obtain r
    where r: "flatten_loop name ?att icons (get_aliases ?icon) (parent ?icon) = Some r"
    by blast
  obtain icons' als where pair: "r = (icons', als)" by (cases r)
  from flatten_loop_result [OF r]
  have r_exit: "\<not> truthy (parent ?icon) \<Longrightarrow> r = (icons, get_aliases ?icon)"
    and r_tbl: "truthy (parent ?icon) \<Longrightarrow>
      fst r = (if ?att then store_aliases icons name (snd r) else icons)"
    and r_keys: "fst ` set (get_aliases ?icon) \<subseteq> fst ` set (snd r)"
    by simp_all
  have fl: "flatten_aliases icons name = Some (icons', als)"
    using r pair by (simp add: flatten_aliases_def Let_def)
  have none: "icons' = icons" if n: "aliases ?icon = None"
  proof (cases "truthy (parent ?icon)")
    case True
    from r_tbl [OF True] n pair show ?thesis by simp
  next
    case False
    from r_exit [OF False] pair show ?thesis by simp
  qed
  have some: "icons' = store_aliases icons name als \<and> aliases (icons_get icons' name) = Some als"
    if a: "aliases ?icon \<noteq> None"
  proof -
    from a obtain d where d: "aliases ?icon = Some d" by auto
    then obtain e where e: "map_of icons name = Some e"
      by (cases "map_of icons name") (simp_all add: icons_get_def empty_entry_def)
    with d have ed: "aliases e = Some d" by (simp add: icons_get_def)
    have st: "icons' = store_aliases icons name als"
    proof (cases "truthy (parent ?icon)")
      case True
      from r_tbl [OF True] a pair show ?thesis by simp
    next
      case False
      from r_exit [OF False] pair d have "icons' = icons" and "als = d"
        by (simp_all add: get_aliases_def)
      with store_same [OF e ed] show ?thesis by simp
    qed
    from store_get_same [OF e, of als] have "aliases (icons_get (store_aliases icons name als) name) = Some als"
      by simp
    with st show ?thesis by simp
  qed
  have other: "icons_get icons' k = icons_get icons k" if k: "k \<noteq> name" for k
  proof (cases "aliases ?icon")
    case None
    from none [OF None] show ?thesis by simp
  next
    case (Some d)
    then have "aliases ?icon \<noteq> None" by simp
    from some [OF this] have "icons' = store_aliases icons name als" by simp
    with k show ?thesis by (simp add: store_get_other)
  qed
  have val: "als = chain_aliases icons n (get_aliases ?icon) (parent ?icon)"
    using flatten_aliases_value [OF ends] fl by auto
  have own: "fst ` set (get_aliases ?icon) \<subseteq> fst ` set als"
    using r_keys pair by simp
  have par: "fst ` set (get_aliases (icons_get icons (the (parent ?icon)))) \<subseteq> fst ` set als"
    if "truthy (parent ?icon)"
    using flatten_loop_parent_keys [OF r that] pair by simp
  show "\<exists>icons' als. flatten_aliases icons name = Some (icons', als) \<and>
      (aliases ?icon = None \<longrightarrow> icons' = icons) \<and>
      (aliases ?icon \<noteq> None \<longrightarrow>
         icons' = store_aliases icons name als \<and> aliases (icons_get icons' name) = Some als) \<and>
      (\<forall>k. k \<noteq> name \<longrightarrow> icons_get icons' k = icons_get icons k) \<and>
      als = chain_aliases icons n (get_aliases ?icon) (parent ?icon) \<and>
      fst ` set (get_aliases ?icon) \<subseteq> fst ` set als \<and>
      (truthy (parent ?icon) \<longrightarrow>
         fst ` set (get_aliases (icons_get icons (the (parent ?icon)))) \<subseteq> fst ` set als)"
  proof (intro exI conjI impI allI)
    show "flatten_aliases icons name = Some (icons', als)" by (rule fl)
    show "icons' = icons" if "aliases ?icon = None" using none [OF that] .
    show "icons' = store_aliases icons name als" if "aliases ?icon \<noteq> None"
      using some [OF that] by (rule conjunct1)
    show "aliases (icons_get icons' name) = Some als" if "aliases ?icon \<noteq> None"
      using some [OF that] by (rule conjunct2)
    show "icons_get icons' k = icons_get icons k" if "k \<noteq> name" for k
      using other [OF that] .
    show "als = chain_aliases icons n (get_aliases ?icon) (parent ?icon)" by (rule val)
    show "fst ` set (get_aliases ?icon) \<subseteq> fst ` set als" by (rule own)
    show "fst ` set (get_aliases (icons_get icons (the (parent ?icon)))) \<subseteq> fst ` set als"
      if "truthy (parent ?icon)" using par [OF that] .
  qed
qed

theorem flatten_updates_own_dictionary_witness:
  "parents_end family_icons 1 (parent (icons_get family_icons ''home-alt'')) \<and>
   aliases (icons_get family_icons ''home-alt'') = Some [(''cottage'', ())] \<and>
   (\<exists>icons'. flatten_aliases family_icons ''home-alt'' =
        Some (icons', [(''cottage'', ()), (''house'', ())]) \<and>
      icons' = store_aliases family_icons ''home-alt'' [(''cottage'', ()), (''house'', ())] \<and>
      aliases (icons_get icons' ''home-alt'') = Some [(''cottage'', ()), (''house'', ())] \<and>
      icons' \<noteq> family_icons)"
proof -
  have p: "parents_end family_icons 1 (parent (icons_get family_icons ''home-alt''))"
    by code_simp
  have a: "aliases (icons_get family_icons ''home-alt'') = Some [(''cottage'', ())]"
    by code_simp
  have v: "snd (the (flatten_aliases family_icons ''home-alt'')) =
      [(''cottage'', ()), (''house'', ())]"
    by code_simp
  have ne: "store_aliases family_icons ''home-alt'' [(''cottage'', ()), (''house'', ())]
      \<noteq> family_icons"
    by code_simp
  from flatten_updates_own_dictionary [of family_icons 1 "''home-alt''"] p a v ne
  show ?thesis by auto
qed


section \<open>A collection that cannot be fetched\<close>

text \<open>
  C2. The claim is what the inner handler of \<open>build_index.py\<close> is written for, and what
  the loops of the two other scripts do, but this handler names \<open>URLError\<close>,
  \<open>HTTPError\<close>, \<open>KeyError\<close> and \<open>JSONDecodeError\<close>, while \<open>http_get\<close> reports a failed
  fetch without a cache entry as \<open>RuntimeError\<close>. With three collections of which the
  second cannot be fetched and an empty cache, the build stops at the second collection:
  the error goes to the outer handler, no soft error is recorded, the third collection
  is never indexed and nothing is committed. On the same input the loop of
  \<open>update_bundled_data.py\<close> indexes the first and the third collection. The same holds
  for any collection whose fetch fails without a cache file
  (\<open>index_collections_fetch_failure\<close>).
\<close>

theorem build_aborts_on_fetch_failure:
  "failure_of (build_index three_collections None True False None empty_cache) =
     Some RuntimeError \<and>
   \<not> committed (build_index three_collections None True False None empty_cache) \<and>
   inserted_ids (build_index three_collections None True False None empty_cache) =
     [''a:home''] \<and>
   soft_errors_of (build_index three_collections None True False None empty_cache) = [] \<and>
   map_option (\<lambda>r. map row_full_id (icons_tbl (fst r)))
     (bundled_build_index (net_docs three_collections) [''a'', ''b'', ''c''] None) =
     Some [''a:home'', ''c:home'']"
  by code_simp


section \<open>The two tables agree\<close>

text \<open>
  C3. After a build that reaches its commit (in \<open>build_index.py\<close> and in
  \<open>update_bundled_data.py\<close>), the tables \<open>icons\<close> and \<open>icons_fts\<close> have the same number
  of rows, every row has \<open>full_id = prefix:name\<close>, and for the \<open>(prefix, name, full_id)\<close>
  of every row of either table there is exactly one row in each table; the reported total
  is the number of rows. The documents are JSON objects: the keys of the collection list
  and the icon names of a collection are distinct.
\<close>

theorem build_keeps_tables_paired:
  assumes "wf_env env" and "wf_caches lc dc"
  shows "(build_index env pfxs force index_exists lc dc = Some (Completed st) \<longrightarrow>
            tables_agree (tbls st) \<and> total_icons st = length (icons_tbl (tbls st))) \<and>
         (distinct collections \<and>
          bundled_build_index (net_docs env) collections pfxs = Some (tb, n) \<longrightarrow>
            tables_agree tb \<and> n = length (icons_tbl tb))"
proof (rule conjI; rule impI)
  assume completed: "build_index env pfxs force index_exists lc dc = Some (Completed st)"
  obtain res cf where h: "http_get (net_list env) lc = (res, cf)"
    by (cases "http_get (net_list env) lc")
  from assms have "wf_reply distinct (net_list env)" and "wf_cache_file distinct lc"
    by (simp_all add: wf_env_def wf_caches_def)
  from http_get_wf [OF h this] have wres: "\<And>cs. res = Inr cs \<Longrightarrow> distinct cs" by simp
  from completed have ne: "\<not> (index_exists \<and> \<not> force)"
    by (auto simp: build_index_def split: if_splits)
  from completed h ne obtain cs where res: "res = Inr cs"
    by (cases res) (simp_all add: build_index_def Let_def)
  define cs' where "cs' = (if list_truthy pfxs then filter (\<lambda>k. k \<in> set (the pfxs)) cs else cs)"
  let ?st0 = "\<lparr>list_cache = cf, doc_cache = dc, tbls = cleared, total_icons = 0,
               errors = []\<rparr>"
  from completed h ne res
  have "(case index_collections (net_docs env) (sort cs') ?st0 of
           None \<Rightarrow> None
         | Some (Some e, st') \<Rightarrow> Some (Failed e st')
         | Some (None, st') \<Rightarrow> Some (Completed st')) = Some (Completed st)"
    unfolding cs'_def by (simp add: build_index_def Let_def split del: if_split)
  then have run: "index_collections (net_docs env) (sort cs') ?st0 = Some (None, st)"
    by (simp split: option.splits prod.splits)
  from wres [OF res] have "distinct cs'" by (simp add: cs'_def)
  then have "distinct (sort cs')" by simp
  moreover from assms have "\<forall>p. wf_reply wf_doc (net_docs env p)"
    and "\<forall>p. wf_cache_file wf_doc (doc_cache ?st0 p)"
    by (simp_all add: wf_env_def wf_caches_def)
  moreover have "rows_inv {} (tbls ?st0)" by (simp add: rows_inv_cleared)
  ultimately have "rows_inv ({} \<union> set (sort cs')) (tbls st) \<and>
      total_icons st + length (icons_tbl (tbls ?st0)) =
        total_icons ?st0 + length (icons_tbl (tbls st))"
    using index_collections_inv [OF run] by blast
  then have "rows_inv ({} \<union> set (sort cs')) (tbls st)"
    and "total_icons st = length (icons_tbl (tbls st))"
    by (simp_all add: cleared_def)
  with rows_inv_agree
  show "tables_agree (tbls st) \<and> total_icons st = length (icons_tbl (tbls st))" by blast
next
  assume a: "distinct collections \<and>
    bundled_build_index (net_docs env) collections pfxs = Some (tb, n)"
  then have run: "bundled_index_collections (net_docs env) pfxs (sort collections) cleared 0 =
      Some (tb, n)"
    by (simp add: bundled_build_index_def)
  from a have "distinct (sort collections)" by simp
  moreover from assms have "\<forall>p. wf_reply wf_doc (net_docs env p)"
    by (simp add: wf_env_def)
  ultimately have "rows_inv ({} \<union> set (sort collections)) tb \<and>
      n + length (icons_tbl cleared) = 0 + length (icons_tbl tb)"
    using bundled_index_collections_inv [OF run _ _ rows_inv_cleared] by blast
  then have "rows_inv ({} \<union> set (sort collections)) tb" and "n = length (icons_tbl tb)"
    by (simp_all add: cleared_def)
  with rows_inv_agree show "tables_agree tb \<and> n = length (icons_tbl tb)" by blast
qed

theorem build_keeps_tables_paired_witness:
  "wf_env two_collections \<and>
   wf_caches None empty_cache \<and>
   (\<exists>st. build_index two_collections None True False None empty_cache = Some (Completed st) \<and>
      tables_agree (tbls st) \<and> total_icons st = 2 \<and>
      map row_full_id (icons_tbl (tbls st)) = [''c1:home'', ''c2:home''])"
proof -
  have w: "wf_env two_collections"
    by (simp add: wf_env_def two_collections_def wf_doc_def home_doc_def get_icons_def)
  have c: "wf_caches None empty_cache"
    by (simp add: wf_caches_def empty_cache_def)
  have "case build_index two_collections None True False None empty_cache of
          Some (Completed st) \<Rightarrow>
            map row_full_id (icons_tbl (tbls st)) = [''c1:home'', ''c2:home'']
        | _ \<Rightarrow> False"
    by code_simp
  then obtain st
    where st: "build_index two_collections None True False None empty_cache = Some (Completed st)"
      and rows: "map row_full_id (icons_tbl (tbls st)) = [''c1:home'', ''c2:home'']"
    by (auto split: option.splits outcome.splits)
  from build_keeps_tables_paired [OF w c, of None True False st] st
  have agree: "tables_agree (tbls st)" and tot: "total_icons st = length (icons_tbl (tbls st))"
    by blast+
  from rows have "length (map row_full_id (icons_tbl (tbls st))) = 2" by simp
  with tot have two: "total_icons st = 2" by simp
  from st agree two rows
  have "\<exists>st. build_index two_collections None True False None empty_cache = Some (Completed st) \<and>
      tables_agree (tbls st) \<and> total_icons st = 2 \<and>
      map row_full_id (icons_tbl (tbls st)) = [''c1:home'', ''c2:home'']"
    by (intro exI [of _ st] conjI)
  with w c show ?thesis by (intro conjI)
qed


section \<open>The build of the command line\<close>

text \<open>
  C9, as the claim states it, fails for two combinations of arguments. Without
  \<open>--force\<close> and with an existing index the function returns at once and raises
  nothing. With \<open>--bundle\<close> the error is the \<open>NameError\<close> of \<open>ensure_data_dir\<close>, raised
  before the index is opened and so before the tables are cleared.
\<close>

theorem cli_build_counterexample:
  "cli_build_index offline False False None True False None empty_cache = CliExists \<and>
   cli_build_index offline True True None False False None empty_cache =
     CliRaised NameError None"
  by (simp add: cli_build_index_def ensure_data_dir_undefined)

text \<open>
  C9, amended. With \<open>bundle\<close> the function raises \<open>NameError\<close> at \<open>ensure_data_dir\<close>
  before it opens the index. Without \<open>bundle\<close>, when the index exists and \<open>force\<close> is
  off it returns without doing anything; otherwise it raises \<open>UnboundLocalError\<close> at
  the first read of \<open>collections\<close>, after clearing both tables and before any insert. In
  no case does it reach its commit.
\<close>

theorem cli_build_never_inserts:
  "cli_build_index env force bundle pfxs cache_index_exists bundle_index_exists lc dc =
     (if bundle then CliRaised NameError None
      else if cache_index_exists \<and> \<not> force then CliExists
      else CliRaised UnboundLocalError
             (Some \<lparr>list_cache = lc, doc_cache = dc, tbls = cleared, total_icons = 0,
                     errors = []\<rparr>)) \<and>
   (\<forall>st. cli_build_index env force bundle pfxs cache_index_exists bundle_index_exists lc dc
      \<noteq> CliCommitted st) \<and>
   icons_tbl cleared = [] \<and> icons_fts cleared = []"
  by (simp add: cli_build_index_def ensure_data_dir_undefined read_local_def Let_def cleared_def)

theorem cli_build_never_inserts_witness:
  "cli_build_index two_collections True False (Some [''c1'']) True False None empty_cache =
   CliRaised UnboundLocalError
     (Some \<lparr>list_cache = None, doc_cache = empty_cache, tbls = cleared, total_icons = 0,
             errors = []\<rparr>)"
  using cli_build_never_inserts [of two_collections True False "Some [''c1'']" True False None
      empty_cache]
  by simp


section \<open>Edge cases of the search\<close>




end
